theory Spec2Isabelle
  imports
    Complex_Main
    "HOL-Library.AList"
    "HOL-Library.Char_ord"
    "HOL-Library.List_Lexorder"
    "HOL-Library.Product_Lexorder"
begin

chapter \<open>A search engine core: frontier, canonicalisation, index, ranking, query parsing\<close>

text \<open>
  The development embeds the Python sources of the search engine in HOL and
  settles the specification's claims on the embedding.  Conventions:
  \<^item> a Python \<open>dict\<close> whose size or values are read is an association list in
    insertion order (\<open>map_of\<close> reads a key, \<open>AList.update\<close> writes one: in
    place when the key exists, at the end otherwise, as Python does); a
    \<open>dict\<close> that is only read and written by key is a map; a read of a
    \<open>defaultdict\<close> goes through \<open>dict_get\<close> or \<open>map_get\<close> with the value of
    its factory;
  \<^item> Python \<open>str\<close> is \<open>string\<close>; characters are 8-bit, so the model covers
    code points below 256;
  \<^item> Python \<open>float\<close> is modelled by exact numbers (\<open>rat\<close>, or \<open>real\<close> where
    a logarithm is taken);
  \<^item> \<open>time.time()\<close> is an argument of the operation that reads the clock;
  \<^item> a Python exception is a value \<open>Inl e\<close> of a sum type.
\<close>

section \<open>Python helpers\<close>

datatype py_error = ZeroDivisionError | ValueError

text \<open>\<open>d.get(k, default)\<close>, and the value a \<open>defaultdict\<close> yields for \<open>d[k]\<close>.\<close>

definition dict_get :: "('k \<times> 'v) list \<Rightarrow> 'k \<Rightarrow> 'v \<Rightarrow> 'v" where
  "dict_get d k dflt = (case map_of d k of None \<Rightarrow> dflt | Some v \<Rightarrow> v)"

text \<open>\<open>m.get(k, default)\<close> for a dictionary kept as a map.\<close>

definition map_get :: "('k \<rightharpoonup> 'v) \<Rightarrow> 'k \<Rightarrow> 'v \<Rightarrow> 'v" where
  "map_get m k dflt = (case m k of None \<Rightarrow> dflt | Some v \<Rightarrow> v)"

text \<open>True division \<open>a / b\<close>: raises on a zero divisor.\<close>

definition py_truediv :: "rat \<Rightarrow> rat \<Rightarrow> py_error + rat" where
  "py_truediv a b = (if b = 0 then Inl ZeroDivisionError else Inr (a / b))"

section \<open>The inverted index (\<open>config/crawler/inverted_index.py\<close>)\<close>

text \<open>A posting is the tuple \<open>(doc_id, tf, positions)\<close>.\<close>

type_synonym posting = "string \<times> nat \<times> nat list"

text \<open>
  \<open>index\<close> and \<open>doc_lengths\<close> are association lists, since \<open>get_stats\<close>
  takes their length and sums their values; \<open>document_freq\<close> is only read
  and incremented by key, and the order in which \<open>add_document\<close> creates its
  keys is the iteration order of a Python \<open>set\<close>, so it is a map.
\<close>

record inverted_index =
  index :: "(string \<times> posting list) list"
  document_freq :: "string \<rightharpoonup> nat"
  total_docs :: nat
  doc_lengths :: "(string \<times> nat) list"

definition new_index :: inverted_index where
  "new_index = \<lparr>index = [], document_freq = Map.empty, total_docs = 0, doc_lengths = []\<rparr>"

text \<open>
  The first loop of \<open>add_document\<close>: \<open>for position, token in enumerate(tokens)\<close>,
  carrying \<open>term_freq\<close> and \<open>term_positions\<close>.
\<close>

fun scan_tokens ::
  "nat \<Rightarrow> string list \<Rightarrow> (string \<times> nat) list \<times> (string \<times> nat list) list
     \<Rightarrow> (string \<times> nat) list \<times> (string \<times> nat list) list" where
  "scan_tokens position [] acc = acc"
| "scan_tokens position (token # rest) (term_freq, term_positions) =
     (if length token \<ge> 2
      then scan_tokens (Suc position) rest
             (AList.update token (dict_get term_freq token 0 + 1) term_freq,
              AList.update token (dict_get term_positions token [] @ [position]) term_positions)
      else scan_tokens (Suc position) rest (term_freq, term_positions))"

text \<open>
  The second loop: \<open>for term, freq in term_freq.items()\<close> appends one posting
  to \<open>self.index[term]\<close>.
\<close>

fun append_postings ::
  "string \<Rightarrow> (string \<times> nat list) list \<Rightarrow> (string \<times> nat) list
     \<Rightarrow> (string \<times> posting list) list \<Rightarrow> (string \<times> posting list) list" where
  "append_postings doc_id term_positions [] idx = idx"
| "append_postings doc_id term_positions ((term, freq) # rest) idx =
     append_postings doc_id term_positions rest
       (AList.update term (dict_get idx term [] @ [(doc_id, freq, dict_get term_positions term [])]) idx)"

text \<open>The third loop: \<open>for term in unique_terms: self.document_freq[term] += 1\<close>.\<close>

fun bump_document_freq :: "string list \<Rightarrow> (string \<rightharpoonup> nat) \<Rightarrow> (string \<rightharpoonup> nat)" where
  "bump_document_freq [] df = df"
| "bump_document_freq (term # rest) df =
     bump_document_freq rest (df(term \<mapsto> map_get df term 0 + 1))"

definition add_document :: "inverted_index \<Rightarrow> string \<Rightarrow> string list \<Rightarrow> inverted_index" where
  "add_document st doc_id tokens =
     (if map_of (doc_lengths st) doc_id \<noteq> None then st
      else
        let (term_freq, term_positions) = scan_tokens 0 tokens ([], []);
            unique_terms = map fst term_freq
        in st\<lparr>index := append_postings doc_id term_positions term_freq (index st),
               document_freq := bump_document_freq unique_terms (document_freq st),
               doc_lengths := AList.update doc_id (length tokens) (doc_lengths st),
               total_docs := total_docs st + 1\<rparr>)"

text \<open>\<open>self.index[term]\<close> as \<open>search\<close> reads it: the empty list for a missing term.\<close>

definition postings :: "inverted_index \<Rightarrow> string \<Rightarrow> posting list" where
  "postings st term = dict_get (index st) term []"

definition search :: "inverted_index \<Rightarrow> string list \<Rightarrow> (string \<times> posting list) list" where
  "search st terms = fold (\<lambda>term results. AList.update term (postings st term) results) terms []"

definition get_document_frequency :: "inverted_index \<Rightarrow> string \<Rightarrow> nat" where
  "get_document_frequency st term = map_get (document_freq st) term 0"

text \<open>The loop of \<open>get_term_frequency\<close>: the first posting of the document decides.\<close>

fun find_tf :: "posting list \<Rightarrow> string \<Rightarrow> nat" where
  "find_tf [] doc_id = 0"
| "find_tf ((doc, tf, positions) # rest) doc_id = (if doc = doc_id then tf else find_tf rest doc_id)"

definition get_term_frequency :: "inverted_index \<Rightarrow> string \<Rightarrow> string \<Rightarrow> nat" where
  "get_term_frequency st term doc_id =
     (if map_of (index st) term \<noteq> None then find_tf (dict_get (index st) term []) doc_id else 0)"

definition get_document_length :: "inverted_index \<Rightarrow> string \<Rightarrow> nat" where
  "get_document_length st doc_id = dict_get (doc_lengths st) doc_id 0"

record index_stats =
  total_documents :: nat
  unique_terms :: nat
  total_postings :: nat
  average_doc_length :: rat

text \<open>
  \<open>get_stats\<close>: the conditional expression guards the division, whose own
  failure is kept as a branch of the model.
\<close>

definition get_stats :: "inverted_index \<Rightarrow> py_error + index_stats" where
  "get_stats st =
     (case (if doc_lengths st \<noteq> []
            then py_truediv (of_nat (sum_list (map snd (doc_lengths st))))
                            (of_nat (length (doc_lengths st)))
            else Inr 0) of
        Inl e \<Rightarrow> Inl e
      | Inr avg \<Rightarrow>
          Inr \<lparr>total_documents = total_docs st,
               unique_terms = length (index st),
               total_postings = sum_list (map (\<lambda>(term, ps). length ps) (index st)),
               average_doc_length = avg\<rparr>)"

text \<open>The state after a sequence of \<open>add_document\<close> calls on a fresh index.\<close>

definition index_after :: "(string \<times> string list) list \<Rightarrow> inverted_index" where
  "index_after docs = fold (\<lambda>(doc_id, tokens) st. add_document st doc_id tokens) docs new_index"

text \<open>
  The invariant of the index: for every term the document frequency is the
  length of the posting list, the posting list names each document once, and
  every document it names has a recorded length.
\<close>

definition index_inv :: "inverted_index \<Rightarrow> bool" where
  "index_inv st \<longleftrightarrow>
     (\<forall>t. get_document_frequency st t = length (postings st t)
        \<and> distinct (map fst (postings st t))
        \<and> set (map fst (postings st t)) \<subseteq> fst ` set (doc_lengths st))"

section \<open>Python strings\<close>

text \<open>
  A character is a code point below 256.  On these, \<open>str.lower\<close> moves the
  letters \<open>A\<close> to \<open>Z\<close> and the Latin-1 capitals \<open>0xC0\<close> to \<open>0xDE\<close>
  (without the multiplication sign \<open>0xD7\<close>) up by \<open>0x20\<close>, and leaves every
  other character as it is.
\<close>

definition py_lower_char :: "char \<Rightarrow> char" where
  "py_lower_char c =
     (let n = (of_char c :: nat)
      in if (0x41 \<le> n \<and> n \<le> 0x5A) \<or> (0xC0 \<le> n \<and> n \<le> 0xDE \<and> n \<noteq> 0xD7)
         then char_of (n + 0x20) else c)"

definition py_lower :: "string \<Rightarrow> string" where
  "py_lower s = map py_lower_char s"

text \<open>\<open>s[:i]\<close> and \<open>s[i+1:]\<close> for \<open>i = s.find(c)\<close>, when \<open>c\<close> occurs in \<open>s\<close>.\<close>

definition before :: "char \<Rightarrow> string \<Rightarrow> string" where
  "before c s = takeWhile (\<lambda>x. x \<noteq> c) s"

definition after :: "char \<Rightarrow> string \<Rightarrow> string" where
  "after c s = drop 1 (dropWhile (\<lambda>x. x \<noteq> c) s)"

text \<open>\<open>s.split(c)\<close> for a one-character separator: at least one piece.\<close>

fun split_on :: "char \<Rightarrow> string \<Rightarrow> string list" where
  "split_on c [] = [[]]"
| "split_on c (x # xs) =
     (if x = c then [] # split_on c xs
      else case split_on c xs of [] \<Rightarrow> [[x]] | w # ws \<Rightarrow> (x # w) # ws)"

text \<open>\<open>c.join(pieces)\<close> for a one-character separator.\<close>

fun join :: "char \<Rightarrow> string list \<Rightarrow> string" where
  "join c [] = []"
| "join c [p] = p"
| "join c (p # q # ps) = p @ c # join c (q # ps)"

text \<open>\<open>s.rstrip(c)\<close> and \<open>s.startswith(p)\<close>, \<open>s.endswith(p)\<close>, \<open>p in s\<close>.\<close>

definition rstrip :: "char \<Rightarrow> string \<Rightarrow> string" where
  "rstrip c s = rev (dropWhile (\<lambda>x. x = c) (rev s))"

definition startswith :: "string \<Rightarrow> string \<Rightarrow> bool" where
  "startswith s p \<longleftrightarrow> take (length p) s = p"

definition endswith :: "string \<Rightarrow> string \<Rightarrow> bool" where
  "endswith s p \<longleftrightarrow> startswith (rev s) (rev p)"

fun contains :: "string \<Rightarrow> string \<Rightarrow> bool" where
  "contains [] p = (p = [])"
| "contains (x # xs) p = (startswith (x # xs) p \<or> contains xs p)"

section \<open>PageRank (\<open>ranker/pagerank.py\<close>)\<close>

text \<open>
  A Python \<open>set\<close> of node ids is kept as a duplicate-free list: \<open>s.add(x)\<close> is
  \<open>List.insert x s\<close>, \<open>len(s)\<close> is \<open>length s\<close>, and \<open>for x in s\<close> runs over
  the list.  Python leaves the iteration order of a set open; the model's
  order is one of them, and no result below depends on it.  The \<open>numpy\<close>
  arrays are lists of rationals (a matrix is the list of its rows).
\<close>

record pagerank =
  damping_factor :: rat
  max_iterations :: nat
  tolerance :: rat
  graph :: "(nat \<times> nat list) list"
  reverse_graph :: "(nat \<times> nat list) list"
  scores :: "(string \<times> rat) list"
  url_to_id :: "(string \<times> nat) list"
  id_to_url :: "(nat \<times> string) list"
  next_id :: nat

text \<open>The constructor with its default arguments.\<close>

definition new_pagerank :: pagerank where
  "new_pagerank =
     \<lparr>damping_factor = 85 / 100, max_iterations = 50, tolerance = 1 / 1000000,
      graph = [], reverse_graph = [], scores = [], url_to_id = [], id_to_url = [],
      next_id = 0\<rparr>"

definition get_or_create_id :: "pagerank \<Rightarrow> string \<Rightarrow> nat \<times> pagerank" where
  "get_or_create_id st url =
     (let st' = (if map_of (url_to_id st) url = None
                 then st\<lparr>url_to_id := AList.update url (next_id st) (url_to_id st),
                         id_to_url := AList.update (next_id st) url (id_to_url st),
                         next_id := next_id st + 1\<rparr>
                 else st)
      in (dict_get (url_to_id st') url 0, st'))"

definition add_link :: "pagerank \<Rightarrow> string \<Rightarrow> string \<Rightarrow> pagerank" where
  "add_link st source_url target_url =
     (let (source_id, st1) = get_or_create_id st source_url;
          (target_id, st2) = get_or_create_id st1 target_url
      in st2\<lparr>graph :=
               AList.update source_id (List.insert target_id (dict_get (graph st2) source_id []))
                 (graph st2),
             reverse_graph :=
               AList.update target_id (List.insert source_id (dict_get (reverse_graph st2) target_id []))
                 (reverse_graph st2)\<rparr>)"

text \<open>\<open>self.graph.get(i, set())\<close> and \<open>self.reverse_graph.get(i, set())\<close>.\<close>

definition out_links :: "pagerank \<Rightarrow> nat \<Rightarrow> nat list" where
  "out_links st i = dict_get (graph st) i []"

definition in_links :: "pagerank \<Rightarrow> nat \<Rightarrow> nat list" where
  "in_links st i = dict_get (reverse_graph st) i []"

text \<open>The state after a sequence of \<open>add_link\<close> calls on a fresh object.\<close>

definition pagerank_after :: "(string \<times> string) list \<Rightarrow> pagerank" where
  "pagerank_after links = fold (\<lambda>(source_url, target_url) st. add_link st source_url target_url) links new_pagerank"

text \<open>\<open>matrix[target_id][source_id] = prob\<close> and \<open>matrix[:, source_id] = v\<close>.\<close>

definition set_entry :: "rat list list \<Rightarrow> nat \<Rightarrow> nat \<Rightarrow> rat \<Rightarrow> rat list list" where
  "set_entry matrix i j v = matrix[i := (matrix ! i)[j := v]]"

definition set_column :: "rat list list \<Rightarrow> nat \<Rightarrow> rat \<Rightarrow> rat list list" where
  "set_column matrix j v = map (\<lambda>row. row[j := v]) matrix"

text \<open>
  The inner loop of \<open>_build_transition_matrix\<close>, with its guard
  \<open>target_id < n\<close>, under which the write is in range.
\<close>

fun fill_links :: "nat \<Rightarrow> nat \<Rightarrow> rat \<Rightarrow> nat list \<Rightarrow> rat list list \<Rightarrow> rat list list" where
  "fill_links n source_id prob [] matrix = matrix"
| "fill_links n source_id prob (target_id # rest) matrix =
     fill_links n source_id prob rest
       (if target_id < n then set_entry matrix target_id source_id prob else matrix)"

text \<open>The body of the outer loop, for one \<open>source_id\<close>.\<close>

definition build_column :: "pagerank \<Rightarrow> nat \<Rightarrow> nat \<Rightarrow> rat list list \<Rightarrow> rat list list" where
  "build_column st n source_id matrix =
     (let outgoing_links = out_links st source_id
      in if outgoing_links \<noteq> []
         then fill_links n source_id (1 / of_nat (length outgoing_links)) outgoing_links matrix
         else set_column matrix source_id (1 / of_nat n))"

definition build_transition_matrix :: "pagerank \<Rightarrow> nat \<Rightarrow> rat list list" where
  "build_transition_matrix st n =
     fold (build_column st n) [0..<n] (replicate n (replicate n 0))"

text \<open>\<open>np.dot(matrix, scores)\<close> for an \<open>n \<times> n\<close> matrix and a vector of length \<open>n\<close>.\<close>

definition dot :: "rat list list \<Rightarrow> rat list \<Rightarrow> rat list" where
  "dot matrix v = map (\<lambda>row. sum_list (map2 (*) row v)) matrix"

text \<open>
  \<open>_pagerank_iteration\<close>.  The division by \<open>n\<close> raises for \<open>n = 0\<close>, and
  \<open>np.dot\<close> raises when the shapes do not fit.
\<close>

definition pagerank_iteration ::
  "pagerank \<Rightarrow> rat list \<Rightarrow> rat list list \<Rightarrow> nat \<Rightarrow> py_error + rat list" where
  "pagerank_iteration st scores_vec transition_matrix n =
     (if \<exists>row \<in> set transition_matrix. length row \<noteq> length scores_vec then Inl ValueError
      else
        let damped_scores = map (\<lambda>x. damping_factor st * x) (dot transition_matrix scores_vec)
        in case py_truediv (1 - damping_factor st) (of_nat n) of
             Inl e \<Rightarrow> Inl e
           | Inr random_jump \<Rightarrow> Inr (map (\<lambda>x. x + random_jump) damped_scores))"

text \<open>\<open>np.linalg.norm(new_scores - scores, 1)\<close>.\<close>

definition norm1_diff :: "rat list \<Rightarrow> rat list \<Rightarrow> rat" where
  "norm1_diff xs ys = sum_list (map2 (\<lambda>x y. \<bar>x - y\<bar>) xs ys)"

text \<open>
  The power iteration loop of \<open>calculate_pagerank\<close>, with the number of
  iterations left: on convergence it leaves the loop with the previous vector.
\<close>

fun power_iteration ::
  "pagerank \<Rightarrow> rat list list \<Rightarrow> nat \<Rightarrow> nat \<Rightarrow> rat list \<Rightarrow> py_error + rat list" where
  "power_iteration st transition_matrix n 0 scores_vec = Inr scores_vec"
| "power_iteration st transition_matrix n (Suc k) scores_vec =
     (case pagerank_iteration st scores_vec transition_matrix n of
        Inl e \<Rightarrow> Inl e
      | Inr new_scores \<Rightarrow>
          if norm1_diff new_scores scores_vec < tolerance st then Inr scores_vec
          else power_iteration st transition_matrix n k new_scores)"

text \<open>
  \<open>calculate_pagerank\<close> up to the end of its loop: \<open>None\<close> is the early
  return on an empty graph, otherwise the final score vector.
\<close>

definition calculate_pagerank :: "pagerank \<Rightarrow> (py_error + rat list) option" where
  "calculate_pagerank st =
     (if graph st = [] then None
      else
        let n = length (url_to_id st);
            scores_vec = replicate n (1 / of_nat n);
            transition_matrix = build_transition_matrix st n
        in Some (power_iteration st transition_matrix n (max_iterations st) scores_vec))"

text \<open>
  The invariant of the link graph that \<open>add_link\<close> maintains: ids are dense,
  every adjacency set is duplicate-free and within the ids handed out, and
  the two adjacencies mirror each other.
\<close>

definition graph_inv :: "pagerank \<Rightarrow> bool" where
  "graph_inv st \<longleftrightarrow>
     next_id st = length (url_to_id st)
   \<and> (\<forall>url i. map_of (url_to_id st) url = Some i \<longrightarrow> i < next_id st)
   \<and> (\<forall>i. distinct (out_links st i) \<and> distinct (in_links st i))
   \<and> (\<forall>i j. j \<in> set (out_links st i) \<longleftrightarrow> i \<in> set (in_links st j))
   \<and> (\<forall>i j. j \<in> set (out_links st i) \<longrightarrow> i < next_id st \<and> j < next_id st)"

text \<open>An \<open>n \<times> n\<close> array.\<close>

definition is_matrix :: "nat \<Rightarrow> rat list list \<Rightarrow> bool" where
  "is_matrix n matrix \<longleftrightarrow> length matrix = n \<and> (\<forall>row \<in> set matrix. length row = n)"

text \<open>The value the loop body for column \<open>j\<close> leaves at row \<open>i\<close>.\<close>

definition column_value :: "pagerank \<Rightarrow> nat \<Rightarrow> rat \<Rightarrow> nat \<Rightarrow> nat \<Rightarrow> rat" where
  "column_value st n old i j =
     (if out_links st j = [] then 1 / of_nat n
      else if i \<in> set (out_links st j) then 1 / of_nat (length (out_links st j))
      else old)"

section \<open>URL canonicalisation (\<open>duplicate_detector.py\<close>)\<close>

subsection \<open>\<open>urllib.parse\<close>\<close>

text \<open>
  \<open>normalize_url\<close> calls \<open>urlparse\<close> and \<open>urlunparse\<close> of the standard
  library, modelled here as in CPython 3.11.  The library's validation of a
  bracketed host (an IPv6 or IPvFuture literal) is the parameter
  \<open>check_host\<close>; its other check, on the NFKC normal form of the host,
  cannot fail on code points below 256.
\<close>

record parse_result =
  scheme :: string
  netloc :: string
  path :: string
  params :: string
  query :: string
  fragment :: string

definition scheme_chars :: string where
  "scheme_chars = ''abcdefghijklmnopqrstuvwxyzABCDEFGHIJKLMNOPQRSTUVWXYZ0123456789+-.''"

definition uses_params :: "string list" where
  "uses_params = ['''', ''ftp'', ''hdl'', ''prospero'', ''http'', ''imap'', ''https'', ''shttp'',
     ''rtsp'', ''rtsps'', ''rtspu'', ''sip'', ''sips'', ''mms'', ''sftp'', ''tel'']"

definition uses_netloc :: "string list" where
  "uses_netloc = ['''', ''ftp'', ''http'', ''gopher'', ''nntp'', ''telnet'', ''imap'', ''wais'',
     ''file'', ''mms'', ''https'', ''shttp'', ''snews'', ''prospero'', ''rtsp'', ''rtsps'',
     ''rtspu'', ''rsync'', ''svn'', ''svn+ssh'', ''sftp'', ''nfs'', ''git'', ''git+ssh'', ''ws'', ''wss'']"

definition is_ascii_alpha :: "char \<Rightarrow> bool" where
  "is_ascii_alpha c =
     (let n = (of_char c :: nat) in (0x41 \<le> n \<and> n \<le> 0x5A) \<or> (0x61 \<le> n \<and> n \<le> 0x7A))"

text \<open>
  \<open>url.lstrip(_WHATWG_C0_CONTROL_OR_SPACE)\<close>, then the removal of tab,
  carriage return and newline.
\<close>

definition strip_unsafe :: "string \<Rightarrow> string" where
  "strip_unsafe url =
     filter (\<lambda>c. c \<noteq> CHR 0x09 \<and> c \<noteq> CHR 0x0D \<and> c \<noteq> CHR 0x0A)
       (dropWhile (\<lambda>c. (of_char c :: nat) \<le> 0x20) url)"

text \<open>\<open>_splitnetloc(url, 2)\<close>: the host part ends at the first of \<open>/?#\<close>.\<close>

definition splitnetloc :: "string \<Rightarrow> string \<times> string" where
  "splitnetloc url =
     (takeWhile (\<lambda>c. c \<noteq> CHR ''/'' \<and> c \<noteq> CHR ''?'' \<and> c \<noteq> CHR ''#'') (drop 2 url),
      dropWhile (\<lambda>c. c \<noteq> CHR ''/'' \<and> c \<noteq> CHR ''?'' \<and> c \<noteq> CHR ''#'') (drop 2 url))"

text \<open>\<open>netloc.partition('[')[2].partition(']')[0]\<close>.\<close>

definition bracketed_host :: "string \<Rightarrow> string" where
  "bracketed_host loc = before CHR '']'' (after CHR ''['' loc)"

text \<open>The two splits at the end of \<open>urlsplit\<close>: the fragment, then the query.\<close>

definition split_fragment_query :: "string \<Rightarrow> string \<Rightarrow> string \<Rightarrow> parse_result" where
  "split_fragment_query sch loc url =
     (let (url1, frag) = (if CHR ''#'' \<in> set url then (before CHR ''#'' url, after CHR ''#'' url)
                          else (url, ''''));
          (url2, qry) = (if CHR ''?'' \<in> set url1 then (before CHR ''?'' url1, after CHR ''?'' url1)
                         else (url1, ''''))
      in \<lparr>scheme = sch, netloc = loc, path = url2, params = '''', query = qry, fragment = frag\<rparr>)"

text \<open>
  The test for a scheme: \<open>i = url.find(':')\<close> is positive, the first character
  is an ASCII letter, and the loop over \<open>url[:i]\<close> finds scheme characters only.
\<close>

definition has_scheme :: "string \<Rightarrow> bool" where
  "has_scheme url \<longleftrightarrow>
     CHR '':'' \<in> set url \<and> before CHR '':'' url \<noteq> [] \<and> is_ascii_alpha (hd url)
       \<and> list_all (\<lambda>c. c \<in> set scheme_chars) (before CHR '':'' url)"

definition urlsplit :: "(string \<Rightarrow> bool) \<Rightarrow> string \<Rightarrow> py_error + parse_result" where
  "urlsplit check_host url0 =
     (let url = strip_unsafe url0;
          (sch, url) =
            (if has_scheme url then (py_lower (before CHR '':'' url), after CHR '':'' url)
             else ('''', url))
      in if take 2 url = ''//''
         then
           let (loc, url) = splitnetloc url
           in if (CHR ''['' \<in> set loc \<and> CHR '']'' \<notin> set loc)
                 \<or> (CHR '']'' \<in> set loc \<and> CHR ''['' \<notin> set loc)
              then Inl ValueError
              else if CHR ''['' \<in> set loc \<and> CHR '']'' \<in> set loc
                      \<and> \<not> check_host (bracketed_host loc)
              then Inl ValueError
              else Inr (split_fragment_query sch loc url)
         else Inr (split_fragment_query sch '''' url))"

text \<open>
  \<open>_splitparams\<close>, called when \<open>;\<close> occurs in the path: the parameters
  start at the first \<open>;\<close> of the last path segment.
\<close>

definition splitparams :: "string \<Rightarrow> string \<times> string" where
  "splitparams url =
     (if CHR ''/'' \<in> set url
      then
        let segment = rev (takeWhile (\<lambda>c. c \<noteq> CHR ''/'') (rev url));
            head = take (length url - length segment) url
        in if CHR '';'' \<in> set segment
           then (head @ before CHR '';'' segment, after CHR '';'' segment)
           else (url, '''')
      else (before CHR '';'' url, after CHR '';'' url))"

definition urlparse :: "(string \<Rightarrow> bool) \<Rightarrow> string \<Rightarrow> py_error + parse_result" where
  "urlparse check_host url =
     (case urlsplit check_host url of
        Inl e \<Rightarrow> Inl e
      | Inr r \<Rightarrow>
          if scheme r \<in> set uses_params \<and> CHR '';'' \<in> set (path r)
          then let (url, prm) = splitparams (path r) in Inr (r\<lparr>path := url, params := prm\<rparr>)
          else Inr r)"

definition urlunsplit :: "string \<times> string \<times> string \<times> string \<times> string \<Rightarrow> string" where
  "urlunsplit components =
     (let (sch, loc, url, qry, frag) = components;
          url = (if loc \<noteq> [] \<or> (sch \<noteq> [] \<and> sch \<in> set uses_netloc) \<or> take 2 url = ''//''
                 then ''//'' @ loc @ (if url \<noteq> [] \<and> take 1 url \<noteq> ''/'' then CHR ''/'' # url else url)
                 else url);
          url = (if sch \<noteq> [] then sch @ CHR '':'' # url else url);
          url = (if qry \<noteq> [] then url @ CHR ''?'' # qry else url);
          url = (if frag \<noteq> [] then url @ CHR ''#'' # frag else url)
      in url)"

definition urlunparse :: "string \<times> string \<times> string \<times> string \<times> string \<times> string \<Rightarrow> string" where
  "urlunparse components =
     (let (sch, loc, url, prm, qry, frag) = components;
          url = (if prm \<noteq> [] then url @ CHR '';'' # prm else url)
      in urlunsplit (sch, loc, url, qry, frag))"

subsection \<open>\<open>DuplicateDetector.normalize_url\<close>\<close>

definition tracking_params :: "string list" where
  "tracking_params = [''utm_source'', ''utm_medium'', ''utm_campaign'', ''utm_term'',
     ''utm_content'', ''ref'', ''source'']"

text \<open>
  The loop over \<open>parsed.query.split('&')\<close>, carrying \<open>query_parts\<close>; the key
  is \<open>param.split('=', 1)[0]\<close>.
\<close>

fun collect_query_parts :: "string list \<Rightarrow> string list \<Rightarrow> string list" where
  "collect_query_parts [] query_parts = query_parts"
| "collect_query_parts (param # rest) query_parts =
     collect_query_parts rest
       (if CHR ''='' \<in> set param
        then (if before CHR ''='' param \<notin> set tracking_params then query_parts @ [param]
              else query_parts)
        else query_parts)"

definition normalized_query :: "string \<Rightarrow> string" where
  "normalized_query qry =
     (if qry \<noteq> [] then join CHR ''&'' (sort (collect_query_parts (split_on CHR ''&'' qry) []))
      else '''')"

definition normalize_url :: "(string \<Rightarrow> bool) \<Rightarrow> string \<Rightarrow> py_error + string" where
  "normalize_url check_host url =
     (case urlparse check_host (py_lower url) of
        Inl e \<Rightarrow> Inl e
      | Inr parsed \<Rightarrow>
          Inr (urlunparse (scheme parsed, netloc parsed, rstrip CHR ''/'' (path parsed),
                 params parsed, normalized_query (query parsed), '''')))"




subsection \<open>URLs with a scheme and a host\<close>








section \<open>The TF-IDF scorer (\<open>config/crawler/ranker/tf_idf.py\<close>)\<close>

text \<open>
  Scores are real numbers, \<open>math.log\<close> is the natural logarithm, which raises
  \<open>ValueError\<close> outside its domain.
\<close>

datatype tf_method = raw | log_normalized | double_normalized | other_method

definition py_log :: "real \<Rightarrow> py_error + real" where
  "py_log x = (if x \<le> 0 then Inl ValueError else Inr (ln x))"

definition calculate_tf :: "nat \<Rightarrow> nat \<Rightarrow> tf_method \<Rightarrow> real" where
  "calculate_tf term_freq doc_length method =
     (case method of
        raw \<Rightarrow> of_nat term_freq
      | log_normalized \<Rightarrow> (if term_freq > 0 then 1 + ln (of_nat term_freq) else 0)
      | double_normalized \<Rightarrow>
          (if doc_length > 0 then 0.5 + (0.5 * of_nat term_freq / of_nat doc_length) else 0)
      | other_method \<Rightarrow> of_nat term_freq)"

definition calculate_idf :: "inverted_index \<Rightarrow> string \<Rightarrow> py_error + real" where
  "calculate_idf st term =
     (let doc_freq = get_document_frequency st term
      in if doc_freq = 0 then Inr 0
         else py_log (of_nat (total_docs st) / of_nat doc_freq))"

definition calculate_tfidf :: "inverted_index \<Rightarrow> string \<Rightarrow> string \<Rightarrow> py_error + real" where
  "calculate_tfidf st term doc_id =
     (let tf = get_term_frequency st term doc_id
      in if tf = 0 then Inr 0
         else
           let doc_length = get_document_length st doc_id;
               tf_score = calculate_tf tf doc_length log_normalized
           in case calculate_idf st term of
                Inl e \<Rightarrow> Inl e
              | Inr idf_score \<Rightarrow> Inr (tf_score * idf_score))"

text \<open>The loop of \<open>score_document\<close>, carrying \<open>total_score\<close>.\<close>

fun sum_tfidf :: "inverted_index \<Rightarrow> string \<Rightarrow> string list \<Rightarrow> real \<Rightarrow> py_error + real" where
  "sum_tfidf st doc_id [] total_score = Inr total_score"
| "sum_tfidf st doc_id (term # rest) total_score =
     (case calculate_tfidf st term doc_id of
        Inl e \<Rightarrow> Inl e
      | Inr tfidf_score \<Rightarrow> sum_tfidf st doc_id rest (total_score + tfidf_score))"

definition score_document :: "inverted_index \<Rightarrow> string list \<Rightarrow> string \<Rightarrow> py_error + real" where
  "score_document st query_terms doc_id =
     (case sum_tfidf st doc_id query_terms 0 of
        Inl e \<Rightarrow> Inl e
      | Inr total_score \<Rightarrow>
          Inr (if query_terms \<noteq> [] then total_score / of_nat (length query_terms) else 0))"

text \<open>The loop of \<open>score_documents\<close>, carrying \<open>scored_docs\<close>.\<close>

fun collect_scores ::
  "inverted_index \<Rightarrow> string list \<Rightarrow> string list \<Rightarrow> (string \<times> real) list
     \<Rightarrow> py_error + (string \<times> real) list" where
  "collect_scores st query_terms [] scored_docs = Inr scored_docs"
| "collect_scores st query_terms (doc_id # rest) scored_docs =
     (case score_document st query_terms doc_id of
        Inl e \<Rightarrow> Inl e
      | Inr score \<Rightarrow>
          collect_scores st query_terms rest
            (if score > 0 then scored_docs @ [(doc_id, score)] else scored_docs))"

text \<open>
  \<open>sorted(scored_docs, key=lambda x: x[1], reverse=True)\<close>: Python's sort is
  stable, and with \<open>reverse=True\<close> elements of equal key keep their order in
  the input.  That is the stable insertion sort on the negated key.
\<close>

definition sorted_by_score_reverse :: "(string \<times> real) list \<Rightarrow> (string \<times> real) list" where
  "sorted_by_score_reverse scored_docs = sort_key (\<lambda>x. - snd x) scored_docs"

definition score_documents ::
  "inverted_index \<Rightarrow> string list \<Rightarrow> string list \<Rightarrow> py_error + (string \<times> real) list" where
  "score_documents st query_terms candidate_docs =
     (case collect_scores st query_terms candidate_docs [] of
        Inl e \<Rightarrow> Inl e
      | Inr scored_docs \<Rightarrow> Inr (sorted_by_score_reverse scored_docs))"

text \<open>
  \<open>get_candidate_documents\<close>: the set of documents in the posting lists of
  the query terms, as a duplicate-free list.
\<close>

definition get_candidate_documents :: "inverted_index \<Rightarrow> string list \<Rightarrow> string list" where
  "get_candidate_documents st query_terms =
     fold (\<lambda>term candidate_docs.
             fold (\<lambda>(doc_id, tf, positions) docs. List.insert doc_id docs)
               (dict_get (search st [term]) term []) candidate_docs)
       query_terms []"

text \<open>
  A state in which \<open>calculate_idf\<close> stays inside the domain of the logarithm:
  a term with a document has a document counted.
\<close>

definition idf_defined :: "inverted_index \<Rightarrow> bool" where
  "idf_defined st \<longleftrightarrow> (\<forall>t. get_document_frequency st t > 0 \<longrightarrow> total_docs st > 0)"

section \<open>The URL frontier (\<open>config/crawler/crawler.py\<close>)\<close>

text \<open>
  The heap of \<open>heapq\<close> is kept as the sorted list of its entries:
  \<open>heappush\<close> inserts in order and \<open>heappop\<close> takes the head, which is the
  least entry, as the heap's contract says.  Entries are the tuples
  \<open>(priority, timestamp, url)\<close> in Python's lexicographic order.  Times are
  rationals; the clock reading of a call is its argument \<open>now\<close>.  The Redis
  set \<open>frontier_urls\<close> is a field of the state, and its client is taken not
  to fail.
\<close>

type_synonym entry = "int \<times> rat \<times> string"

record url_frontier =
  priority_queue :: "entry list"
  domain_queues :: "(string \<times> string list) list"
  domain_last_access :: "string \<rightharpoonup> rat"
  crawled_urls :: "string set"
  frontier_urls :: "string set"

definition new_frontier :: url_frontier where
  "new_frontier =
     \<lparr>priority_queue = [], domain_queues = [], domain_last_access = Map.empty,
      crawled_urls = {}, frontier_urls = {}\<rparr>"

text \<open>\<open>Config.CRAWL_DELAY\<close>, at its default.\<close>

definition CRAWL_DELAY :: rat where
  "CRAWL_DELAY = 1"

definition heappush :: "entry list \<Rightarrow> entry \<Rightarrow> entry list" where
  "heappush heap item = insort item heap"

text \<open>
  A call yields its value, or the exception it raises, together with the
  state it leaves behind.
\<close>

definition add_url ::
  "(string \<Rightarrow> bool) \<Rightarrow> url_frontier \<Rightarrow> string \<Rightarrow> int \<Rightarrow> rat \<Rightarrow> (py_error + bool) \<times> url_frontier" where
  "add_url check_host st url priority now =
     (if url \<in> crawled_urls st then (Inr False, st)
      else case urlparse check_host url of
             Inl e \<Rightarrow> (Inl e, st)
           | Inr parsed \<Rightarrow>
               let domain = netloc parsed
               in (Inr True,
                    st\<lparr>priority_queue := heappush (priority_queue st) (priority, now, url),
                       domain_queues :=
                         AList.update domain (dict_get (domain_queues st) domain [] @ [url])
                           (domain_queues st),
                       frontier_urls := insert url (frontier_urls st)\<rparr>))"

text \<open>
  The loop of \<open>get_next_url\<close>; \<open>current_time\<close> is read once, before the
  loop.  The loop need not end, so the result is an option: \<open>None\<close> stands
  for a call that never returns.  The value a call returns is an option too,
  Python's \<open>None\<close> being \<open>None\<close>.
\<close>

partial_function (option) get_next_url_loop ::
  "(string \<Rightarrow> bool) \<Rightarrow> rat \<Rightarrow> url_frontier \<Rightarrow> ((py_error + string option) \<times> url_frontier) option" where
  "get_next_url_loop check_host current_time st =
     (case priority_queue st of
        [] \<Rightarrow> Some (Inr None, st)
      | item # heap \<Rightarrow>
          (case urlparse check_host (snd (snd item)) of
             Inl e \<Rightarrow> Some (Inl e, st\<lparr>priority_queue := heap\<rparr>)
           | Inr parsed \<Rightarrow>
               if current_time - map_get (domain_last_access st) (netloc parsed) 0 < CRAWL_DELAY
               then get_next_url_loop check_host current_time
                      (st\<lparr>priority_queue :=
                            heappush heap (fst item, current_time + CRAWL_DELAY, snd (snd item))\<rparr>)
               else Some (Inr (Some (snd (snd item))),
                      st\<lparr>priority_queue := heap,
                         domain_last_access := (domain_last_access st)(netloc parsed \<mapsto> current_time),
                         crawled_urls := insert (snd (snd item)) (crawled_urls st),
                         frontier_urls := frontier_urls st - {snd (snd item)}\<rparr>)))"

definition get_next_url ::
  "(string \<Rightarrow> bool) \<Rightarrow> url_frontier \<Rightarrow> rat \<Rightarrow> ((py_error + string option) \<times> url_frontier) option" where
  "get_next_url check_host st now = get_next_url_loop check_host now st"

text \<open>
  A client of the frontier: a sequence of calls, each with the clock reading
  it sees, run from a state.  The run has a result only if every call
  returns; an exception is recorded and the run goes on.
\<close>

datatype frontier_call = AddUrl string int rat | GetNextUrl rat

datatype outcome = Added bool | Returned "string option" | Raised py_error

fun run_calls ::
  "(string \<Rightarrow> bool) \<Rightarrow> url_frontier \<Rightarrow> frontier_call list \<Rightarrow> (outcome list \<times> url_frontier) option" where
  "run_calls check_host st [] = Some ([], st)"
| "run_calls check_host st (AddUrl url priority now # calls) =
     (case add_url check_host st url priority now of
        (res, st') \<Rightarrow>
          (case run_calls check_host st' calls of
             None \<Rightarrow> None
           | Some (outs, st'') \<Rightarrow>
               Some ((case res of Inl e \<Rightarrow> Raised e | Inr b \<Rightarrow> Added b) # outs, st'')))"
| "run_calls check_host st (GetNextUrl now # calls) =
     (case get_next_url check_host st now of
        None \<Rightarrow> None
      | Some (res, st') \<Rightarrow>
          (case run_calls check_host st' calls of
             None \<Rightarrow> None
           | Some (outs, st'') \<Rightarrow>
               Some ((case res of Inl e \<Rightarrow> Raised e | Inr u \<Rightarrow> Returned u) # outs, st'')))"

definition is_empty :: "url_frontier \<Rightarrow> bool" where
  "is_empty st \<longleftrightarrow> length (priority_queue st) = 0"

definition size_frontier :: "url_frontier \<Rightarrow> nat" where
  "size_frontier st = length (priority_queue st)"

text \<open>
  A state on which the loop cannot leave: the queue is not empty and the
  host of every queued URL was accessed less than \<open>CRAWL_DELAY\<close> before
  \<open>now\<close>.
\<close>

definition all_deferred :: "(string \<Rightarrow> bool) \<Rightarrow> rat \<Rightarrow> url_frontier \<Rightarrow> bool" where
  "all_deferred check_host now st \<longleftrightarrow>
     priority_queue st \<noteq> []
   \<and> (\<forall>item \<in> set (priority_queue st).
        \<exists>parsed. urlparse check_host (snd (snd item)) = Inr parsed
          \<and> now - map_get (domain_last_access st) (netloc parsed) 0 < CRAWL_DELAY)"

section \<open>The query parser (\<open>query_parser.py\<close>)\<close>

subsection \<open>The regular expressions\<close>

text \<open>
  The character classes \<open>\s\<close> and \<open>\w\<close> of Python's \<open>re\<close> on code points
  below 256.
\<close>

definition is_space :: "char \<Rightarrow> bool" where
  "is_space c =
     (let n = (of_char c :: nat)
      in (0x09 \<le> n \<and> n \<le> 0x0D) \<or> (0x1C \<le> n \<and> n \<le> 0x20) \<or> n = 0x85 \<or> n = 0xA0)"

definition is_word_char :: "char \<Rightarrow> bool" where
  "is_word_char c =
     (let n = (of_char c :: nat)
      in (0x30 \<le> n \<and> n \<le> 0x39) \<or> (0x41 \<le> n \<and> n \<le> 0x5A) \<or> n = 0x5F
         \<or> (0x61 \<le> n \<and> n \<le> 0x7A)
         \<or> n = 0xAA \<or> n = 0xB2 \<or> n = 0xB3 \<or> n = 0xB5 \<or> n = 0xB9 \<or> n = 0xBA
         \<or> (0xBC \<le> n \<and> n \<le> 0xBE) \<or> (0xC0 \<le> n \<and> n \<le> 0xD6)
         \<or> (0xD8 \<le> n \<and> n \<le> 0xF6) \<or> 0xF8 \<le> n)"

text \<open>\<open>s.strip()\<close> and \<open>s.replace(old, new)\<close>.\<close>

definition strip :: "string \<Rightarrow> string" where
  "strip s = rev (dropWhile is_space (rev (dropWhile is_space s)))"

text \<open>
  The scan of \<open>replace\<close> from left to right; \<open>k\<close> counts the characters of a
  replaced occurrence that are still to be skipped.
\<close>

fun replace_from :: "string \<Rightarrow> string \<Rightarrow> nat \<Rightarrow> string \<Rightarrow> string" where
  "replace_from old new k [] = []"
| "replace_from old new k (x # xs) =
     (if k > 0 then replace_from old new (k - 1) xs
      else if startswith (x # xs) old then new @ replace_from old new (length old - 1) xs
      else x # replace_from old new 0 xs)"

definition replace :: "string \<Rightarrow> string \<Rightarrow> string \<Rightarrow> string" where
  "replace s old new =
     (if old = [] then new @ concat (map (\<lambda>c. c # new) s) else replace_from old new 0 s)"

text \<open>
  \<open>\b\<close> after a match of the word \<open>w\<close> at the start of \<open>s\<close>, for a word that
  ends in a word character: the next character, if any, is no word character.
\<close>

definition boundary_after :: "string \<Rightarrow> string \<Rightarrow> bool" where
  "boundary_after w s = (case drop (length w) s of [] \<Rightarrow> True | c # rest \<Rightarrow> \<not> is_word_char c)"

text \<open>
  \<open>re.search(r'\b(w1|w2|...)\b', s)\<close> for alternatives that begin and end in
  a word character: some alternative occurs in \<open>s\<close> with no word character
  before it and none behind it.  \<open>prev\<close> tells whether the character before
  the scanned rest is a word character.
\<close>

fun search_words :: "string list \<Rightarrow> bool \<Rightarrow> string \<Rightarrow> bool" where
  "search_words ws prev [] = False"
| "search_words ws prev (x # xs) =
     ((\<not> prev \<and> list_ex (\<lambda>w. startswith (x # xs) w \<and> boundary_after w (x # xs)) ws)
      \<or> search_words ws (is_word_char x) xs)"

text \<open>
  The same search under \<open>re.IGNORECASE\<close>, for lower-case ASCII alternatives:
  on code points below 256 a character matches a letter of the pattern when
  its lower-case form does, and \<open>\w\<close> does not depend on case.
\<close>

definition search_words_ignorecase :: "string list \<Rightarrow> string \<Rightarrow> bool" where
  "search_words_ignorecase ws s = search_words ws False (py_lower s)"

text \<open>
  \<open>re.search(prefix + r'([^\s]+)', s, re.IGNORECASE)\<close>: group 1 of the
  leftmost match, the longest run of non-space characters behind the prefix.
\<close>

fun search_filter :: "string \<Rightarrow> string \<Rightarrow> string option" where
  "search_filter prefix [] = None"
| "search_filter prefix (x # xs) =
     (if py_lower (take (length prefix) (x # xs)) = prefix
         \<and> takeWhile (\<lambda>c. \<not> is_space c) (drop (length prefix) (x # xs)) \<noteq> []
      then Some (takeWhile (\<lambda>c. \<not> is_space c) (drop (length prefix) (x # xs)))
      else search_filter prefix xs)"

text \<open>
  \<open>re.finditer(r'"([^"]*)"', s)\<close>: group 1 of the matches from left to right.
  The state is the text collected since an opening quote that has a closing
  one, if the scan is inside a match.
\<close>

fun finditer_phrases :: "string option \<Rightarrow> string \<Rightarrow> string list" where
  "finditer_phrases inside [] = []"
| "finditer_phrases None (x # xs) =
     (if x = CHR 0x22 then (if CHR 0x22 \<in> set xs then finditer_phrases (Some []) xs else [])
      else finditer_phrases None xs)"
| "finditer_phrases (Some acc) (x # xs) =
     (if x = CHR 0x22 then acc # finditer_phrases None xs
      else finditer_phrases (Some (acc @ [x])) xs)"

text \<open>
  \<open>re.finditer(r'\b(AND|OR|NOT)\b', s, re.IGNORECASE)\<close>: the matched texts
  from left to right, each with the upper-case spelling of its alternative.
\<close>

definition operator_words :: "(string \<times> string) list" where
  "operator_words = [(''and'', ''AND''), (''or'', ''OR''), (''not'', ''NOT'')]"

fun finditer_operators :: "bool \<Rightarrow> nat \<Rightarrow> string \<Rightarrow> (string \<times> string) list" where
  "finditer_operators prev k [] = []"
| "finditer_operators prev k (x # xs) =
     (if k > 0 then finditer_operators (is_word_char x) (k - 1) xs
      else
        case (if prev then None
              else find (\<lambda>(w, u). py_lower (take (length w) (x # xs)) = w \<and> boundary_after w (x # xs))
                     operator_words) of
          None \<Rightarrow> finditer_operators (is_word_char x) 0 xs
        | Some (w, u) \<Rightarrow>
            (take (length w) (x # xs), u) # finditer_operators (is_word_char x) (length w - 1) xs)"

subsection \<open>\<open>QueryParser\<close>\<close>

text \<open>
  The text processor (NLTK's tokeniser and stemmer behind it) is the
  parameter \<open>process_text\<close>.
\<close>

record parsed_query =
  original_query :: string
  processed_terms :: "string list"
  phrases :: "string list list"
  operators :: "string list"
  query_type :: string
  intent :: string
  filters :: "(string \<times> string) list"

definition detect_query_type :: "string \<Rightarrow> string" where
  "detect_query_type qry =
     (let query_lower = py_lower qry
      in if list_ex (\<lambda>op. contains query_lower op) [''and'', ''or'', ''not''] then ''boolean''
         else if CHR 0x22 \<in> set qry then ''phrase''
         else if startswith qry ''site:'' \<or> contains qry ''filetype:'' then ''filtered''
         else if endswith qry ''?''
                 \<or> list_ex (startswith qry) [''what'', ''how'', ''when'', ''where'', ''why'', ''who'']
         then ''question''
         else ''simple'')"

definition navigational_patterns :: "string list list" where
  "navigational_patterns =
     [[''facebook'', ''twitter'', ''instagram'', ''youtube'', ''amazon'', ''google''],
      [''login'', ''sign in'', ''homepage'', ''official site'']]"

definition transactional_patterns :: "string list list" where
  "transactional_patterns =
     [[''buy'', ''purchase'', ''order'', ''price'', ''cost'', ''cheap'', ''discount'', ''deal''],
      [''download'', ''install'', ''get'', ''free'']]"

definition detect_intent :: "string \<Rightarrow> string" where
  "detect_intent qry =
     (let query_lower = py_lower qry
      in if list_ex (\<lambda>pattern. search_words pattern False query_lower) navigational_patterns
         then ''navigational''
         else if list_ex (\<lambda>pattern. search_words pattern False query_lower) transactional_patterns
         then ''transactional''
         else if endswith qry ''?''
                 \<or> list_ex (startswith query_lower) [''what'', ''how'', ''when'', ''where'', ''why'', ''who'']
         then ''informational''
         else ''informational'')"

text \<open>The loop of \<open>_extract_phrases\<close> over the matches.\<close>

fun extract_phrases_loop ::
  "(string \<Rightarrow> string list) \<Rightarrow> string list \<Rightarrow> string list list \<times> string
     \<Rightarrow> string list list \<times> string" where
  "extract_phrases_loop process_text [] acc = acc"
| "extract_phrases_loop process_text (group1 # rest) (phrs, remaining_query) =
     extract_phrases_loop process_text rest
       (if strip group1 \<noteq> [] then phrs @ [process_text (strip group1)] else phrs,
        replace remaining_query (CHR 0x22 # group1 @ [CHR 0x22]) '' '')"

definition extract_phrases :: "(string \<Rightarrow> string list) \<Rightarrow> string \<Rightarrow> string list list \<times> string" where
  "extract_phrases process_text qry =
     (let (phrs, remaining_query) =
            extract_phrases_loop process_text (finditer_phrases None qry) ([], qry)
      in (phrs, strip remaining_query))"

text \<open>The loop of \<open>_extract_operators\<close> over the matches.\<close>

fun extract_operators_loop ::
  "(string \<times> string) list \<Rightarrow> string list \<times> string \<Rightarrow> string list \<times> string" where
  "extract_operators_loop [] acc = acc"
| "extract_operators_loop ((group0, operator) # rest) (ops, remaining_query) =
     extract_operators_loop rest (ops @ [operator], replace remaining_query group0 '' '')"

definition extract_operators :: "string \<Rightarrow> string list \<times> string" where
  "extract_operators qry =
     (let (ops, remaining_query) = extract_operators_loop (finditer_operators False 0 qry) ([], qry)
      in (ops, strip remaining_query))"

definition date_patterns :: "(string \<times> string list) list" where
  "date_patterns =
     [(''last_day'', [''today'', ''yesterday'']), (''last_week'', [''last week'']),
      (''last_month'', [''last month'']), (''last_year'', [''last year''])]"

text \<open>
  \<open>_extract_filters\<close>; the dictionary \<open>filters\<close> is the list of its items in
  insertion order, and each key is set at most once.
\<close>

definition extract_filters :: "string \<Rightarrow> (string \<times> string) list" where
  "extract_filters qry =
     (let flt = (case search_filter ''site:'' qry of None \<Rightarrow> []
                 | Some g \<Rightarrow> [(''site'', g)]);
          flt = (case search_filter ''filetype:'' qry of None \<Rightarrow> flt
                 | Some g \<Rightarrow> flt @ [(''filetype'', g)]);
          flt = (case find (\<lambda>(period, pattern). search_words_ignorecase pattern qry) date_patterns of
                   None \<Rightarrow> flt
                 | Some (period, pattern) \<Rightarrow> flt @ [(''date'', period)])
      in flt)"

definition parse_query :: "(string \<Rightarrow> string list) \<Rightarrow> string \<Rightarrow> parsed_query" where
  "parse_query process_text raw_query =
     (let qtype = detect_query_type raw_query;
          int = detect_intent raw_query;
          (phrs, remaining_query) = extract_phrases process_text raw_query;
          (ops, remaining_query) = extract_operators remaining_query;
          terms = process_text remaining_query
      in \<lparr>original_query = raw_query, processed_terms = terms, phrases = phrs, operators = ops,
          query_type = qtype, intent = int, filters = extract_filters raw_query\<rparr>)"

text \<open>
  The query of the specification's parsing scenario,
  \<^verbatim>\<open>What is the "best laptop" site:bestbuy.com under $1000\<close>; the double quote
  is the character \<open>0x22\<close>.
\<close>

definition scenario_query :: string where
  "scenario_query =
     ''What is the '' @ CHR 0x22 # ''best laptop'' @ CHR 0x22 # '' site:bestbuy.com under $1000''"

section \<open>Properties of the inverted index\<close>

lemma map_of_update_same: "map_of (AList.update k v al) k = Some v"
  by (simp add: update_conv')

lemma add_document_known:
  "map_of (doc_lengths st) doc_id \<noteq> None \<Longrightarrow> add_document st doc_id tokens = st"
  by (simp add: add_document_def)

lemma add_document_records_length:
  "map_of (doc_lengths (add_document st doc_id tokens)) doc_id \<noteq> None"
  by (simp add: add_document_def Let_def map_of_update_same split: prod.splits)

text \<open>
  Claim C7.  \<open>add_document\<close> is idempotent on the document id: a second call
  with the same id, whatever its tokens, leaves the whole state as the first
  call left it.
\<close>

theorem add_document_idempotent:
  "add_document (add_document st doc_id tokens) doc_id tokens' = add_document st doc_id tokens"
  by (rule add_document_known) (rule add_document_records_length)

lemma scan_tokens_distinct:
  "distinct (map fst (fst acc)) \<Longrightarrow> distinct (map fst (fst (scan_tokens position tokens acc)))"
proof (induction position tokens acc rule: scan_tokens.induct)
  case (1 position acc)
  then show ?case by simp
next
  case (2 position token rest term_freq term_positions)
  then show ?case by (simp add: distinct_update)
qed

lemma dict_get_update:
  "dict_get (AList.update k v al) k' dflt = (if k' = k then v else dict_get al k' dflt)"
  by (simp add: dict_get_def update_conv')

lemma append_postings_docs:
  "distinct (map fst term_freq) \<Longrightarrow>
   map fst (dict_get (append_postings doc_id term_positions term_freq idx) t []) =
   map fst (dict_get idx t []) @ (if t \<in> fst ` set term_freq then [doc_id] else [])"
proof (induction term_freq arbitrary: idx)
  case Nil
  then show ?case by simp
next
  case (Cons p rest)
  obtain tm freq where p: "p = (tm, freq)" by (cases p)
  from Cons.prems p have fresh: "tm \<notin> fst ` set rest" and d: "distinct (map fst rest)"
    by auto
  show ?case
    using fresh by (auto simp: p Cons.IH [OF d] dict_get_update)
qed

lemma bump_document_freq_count:
  "distinct terms \<Longrightarrow>
   map_get (bump_document_freq terms df) t 0 = map_get df t 0 + (if t \<in> set terms then 1 else 0)"
proof (induction terms arbitrary: df)
  case Nil
  then show ?case by simp
next
  case (Cons tm rest)
  then show ?case by (auto simp: map_get_def)
qed

lemma index_inv_new: "index_inv new_index"
  by (simp add: index_inv_def new_index_def get_document_frequency_def postings_def
      map_get_def dict_get_def)

lemma index_inv_add_document:
  assumes "index_inv st"
  shows "index_inv (add_document st doc_id tokens)"
proof (cases "map_of (doc_lengths st) doc_id")
  case (Some n)
  then show ?thesis using assms by (simp add: add_document_def)
next
  case None
  obtain term_freq term_positions where sc: "scan_tokens 0 tokens ([], []) = (term_freq, term_positions)"
    by (cases "scan_tokens 0 tokens ([], [])")
  have dist: "distinct (map fst term_freq)"
    using scan_tokens_distinct [of "([], [])" 0 tokens] sc by simp
  have fresh: "doc_id \<notin> fst ` set (doc_lengths st)"
    using None by (simp add: map_of_eq_None_iff)
  let ?st' = "add_document st doc_id tokens"
  have st': "?st' = st\<lparr>index := append_postings doc_id term_positions term_freq (index st),
               document_freq := bump_document_freq (map fst term_freq) (document_freq st),
               doc_lengths := AList.update doc_id (length tokens) (doc_lengths st),
               total_docs := total_docs st + 1\<rparr>"
    using None sc by (simp add: add_document_def)
  show ?thesis
    unfolding index_inv_def
  proof (intro allI conjI)
    fix t
    have docs: "map fst (postings ?st' t) =
        map fst (postings st t) @ (if t \<in> fst ` set term_freq then [doc_id] else [])"
      by (simp add: st' postings_def append_postings_docs [OF dist])
    have old: "get_document_frequency st t = length (postings st t)"
      "distinct (map fst (postings st t))"
      "set (map fst (postings st t)) \<subseteq> fst ` set (doc_lengths st)"
      using assms by (simp_all add: index_inv_def)
    have "get_document_frequency ?st' t =
        get_document_frequency st t + (if t \<in> fst ` set term_freq then 1 else 0)"
      using bump_document_freq_count [of "map fst term_freq"] dist
      by (simp add: st' get_document_frequency_def)
    also have "\<dots> = length (map fst (postings ?st' t))"
      by (simp add: docs old(1))
    finally show "get_document_frequency ?st' t = length (postings ?st' t)" by simp
    show "distinct (map fst (postings ?st' t))"
      using old(2,3) fresh by (auto simp: docs)
    have "fst ` set (doc_lengths ?st') = insert doc_id (fst ` set (doc_lengths st))"
      using dom_update [of doc_id "length tokens" "doc_lengths st"]
      by (simp add: st' dom_map_of_conv_image_fst)
    then show "set (map fst (postings ?st' t)) \<subseteq> fst ` set (doc_lengths ?st')"
      using old(3) by (auto simp: docs)
  qed
qed

lemma index_inv_fold:
  "index_inv st \<Longrightarrow> index_inv (fold (\<lambda>(doc_id, tokens) st. add_document st doc_id tokens) docs st)"
  by (induction docs arbitrary: st) (auto simp: index_inv_add_document)

lemma index_inv_after: "index_inv (index_after docs)"
  unfolding index_after_def by (rule index_inv_fold) (rule index_inv_new)

lemma index_inv_counts:
  assumes "index_inv st"
  shows "get_document_frequency st t = card (fst ` set (postings st t))
       \<and> get_document_frequency st t = length (postings st t)"
proof -
  have "card (set (map fst (postings st t))) = length (map fst (postings st t))"
    using assms by (intro distinct_card) (simp add: index_inv_def)
  then show ?thesis using assms by (simp add: index_inv_def)
qed

text \<open>
  Claim C8.  After any sequence of \<open>add_document\<close> calls on a fresh index, and
  again after one more call, the document frequency of every term is the
  number of distinct document ids in its posting list, which is also the
  length of that list.
\<close>

theorem document_frequency_counts_documents:
  "(let st = index_after docs in
      get_document_frequency st t = card (fst ` set (postings st t))
    \<and> get_document_frequency st t = length (postings st t))
 \<and> (let st' = add_document (index_after docs) doc_id tokens in
      get_document_frequency st' t = card (fst ` set (postings st' t))
    \<and> get_document_frequency st' t = length (postings st' t))"
  using index_inv_counts [OF index_inv_after, of docs t]
    index_inv_counts [OF index_inv_add_document [OF index_inv_after], of docs doc_id tokens t]
  by (simp add: Let_def)

lemma document_frequency_scenario:
  "get_document_frequency
     (index_after [(''A'', [''cat'', ''sat'', ''mat'']), (''B'', [''cat'', ''cat'', ''hat''])]) ''cat'' = 2"
  by (simp add: index_after_def new_index_def add_document_def dict_get_def
      get_document_frequency_def map_get_def)

theorem document_frequency_counts_documents_witness:
  "(let st = index_after [(''A'', [''cat'', ''sat'', ''mat'']), (''B'', [''cat'', ''cat'', ''hat''])]
    in get_document_frequency st ''cat'' = 2
     \<and> card (fst ` set (postings st ''cat'')) = 2
     \<and> length (postings st ''cat'') = 2)"
  using document_frequency_counts_documents
    [of "[(''A'', [''cat'', ''sat'', ''mat'']), (''B'', [''cat'', ''cat'', ''hat''])]" "''cat''" "''B''" "[]"]
    document_frequency_scenario
  by (simp add: Let_def)

lemma get_stats_total: "\<exists>s. get_stats st = Inr s"
  by (cases "doc_lengths st") (simp_all add: get_stats_def py_truediv_def)

text \<open>
  Claim C10.  On an index with no recorded document length \<open>get_stats\<close>
  returns normally with \<open>average_doc_length = 0\<close>; the division is evaluated
  only when a document length is recorded, and then its divisor is positive.
\<close>

theorem get_stats_empty_index:
  "(doc_lengths st = [] \<longrightarrow>
      get_stats st = Inr \<lparr>total_documents = total_docs st, unique_terms = length (index st),
        total_postings = sum_list (map (\<lambda>(term, ps). length ps) (index st)),
        average_doc_length = 0\<rparr>)
   \<and> (doc_lengths st \<noteq> [] \<longrightarrow>
      get_stats st = Inr \<lparr>total_documents = total_docs st, unique_terms = length (index st),
        total_postings = sum_list (map (\<lambda>(term, ps). length ps) (index st)),
        average_doc_length =
          of_nat (sum_list (map snd (doc_lengths st))) / of_nat (length (doc_lengths st))\<rparr>)"
  by (simp add: get_stats_def py_truediv_def)

theorem get_stats_empty_index_witness:
  "doc_lengths new_index = [] \<and>
   get_stats new_index = Inr \<lparr>total_documents = 0, unique_terms = 0, total_postings = 0,
     average_doc_length = 0\<rparr>
   \<and> get_stats (add_document new_index ''d1'' [''cat'', ''sat'', ''a'', ''cat'']) =
       Inr \<lparr>total_documents = 1, unique_terms = 2, total_postings = 2, average_doc_length = 4\<rparr>"
  using get_stats_empty_index [of new_index]
    get_stats_empty_index [of "add_document new_index ''d1'' [''cat'', ''sat'', ''a'', ''cat'']"]
  by (simp add: new_index_def add_document_def dict_get_def)

section \<open>Properties of the link graph\<close>

lemma length_update_new:
  "map_of al k = None \<Longrightarrow> length (AList.update k v al) = Suc (length al)"
proof -
  assume "map_of al k = None"
  then have "k \<notin> set (map fst al)" by (simp add: map_of_eq_None_iff)
  then have "map fst (AList.update k v al) = map fst al @ [k]" by (simp add: update_keys)
  then have "length (map fst (AList.update k v al)) = Suc (length al)" by simp
  then show ?thesis by simp
qed

lemma get_or_create_id_graph:
  "get_or_create_id st url = (i, st') \<Longrightarrow>
     graph st' = graph st \<and> reverse_graph st' = reverse_graph st"
  by (auto simp: get_or_create_id_def Let_def split: if_splits)

lemma get_or_create_id_links:
  assumes "get_or_create_id st url = (i, st')"
  shows "out_links st' = out_links st" and "in_links st' = in_links st"
  using get_or_create_id_graph [OF assms] by (simp_all add: out_links_def in_links_def fun_eq_iff)

lemma get_or_create_id_inv_all:
  assumes "graph_inv st" and "get_or_create_id st url = (i, st')"
  shows "graph_inv st' \<and> i < next_id st' \<and> next_id st \<le> next_id st'
      \<and> map_of (url_to_id st') url = Some i"
proof (cases "map_of (url_to_id st) url")
  case None
  note links = get_or_create_id_links [OF assms(2)]
  from None have st': "st' = st\<lparr>url_to_id := AList.update url (next_id st) (url_to_id st),
                       id_to_url := AList.update (next_id st) url (id_to_url st),
                       next_id := next_id st + 1\<rparr>" and i: "i = next_id st"
    using assms(2) by (auto simp: get_or_create_id_def Let_def dict_get_update)
  have "graph_inv st'"
    using assms(1) None unfolding graph_inv_def links
    by (auto simp: st' length_update_new update_conv' less_Suc_eq)
  then show ?thesis
    by (simp add: st' i update_conv')
next
  case (Some k)
  then have "st' = st" "i = k"
    using assms(2) by (auto simp: get_or_create_id_def Let_def dict_get_def)
  then show ?thesis
    using assms(1) Some by (auto simp: graph_inv_def)
qed

lemma get_or_create_id_inv:
  assumes "graph_inv st" and "get_or_create_id st url = (i, st')"
  shows "graph_inv st'" and "i < next_id st'" and "next_id st \<le> next_id st'"
    and "map_of (url_to_id st') url = Some i"
  using get_or_create_id_inv_all [OF assms] by simp_all

lemma add_link_links:
  assumes "get_or_create_id st source_url = (s, st1)"
    and "get_or_create_id st1 target_url = (t, st2)"
  shows "out_links (add_link st source_url target_url) i =
           (if i = s then List.insert t (out_links st s) else out_links st i)"
    and "in_links (add_link st source_url target_url) j =
           (if j = t then List.insert s (in_links st t) else in_links st j)"
    and "next_id (add_link st source_url target_url) = next_id st2"
    and "url_to_id (add_link st source_url target_url) = url_to_id st2"
  using assms get_or_create_id_graph [OF assms(1)] get_or_create_id_graph [OF assms(2)]
  by (simp_all add: add_link_def out_links_def in_links_def dict_get_update)

lemma graph_inv_add_link:
  assumes "graph_inv st"
  shows "graph_inv (add_link st source_url target_url)"
proof -
  obtain s st1 where 1: "get_or_create_id st source_url = (s, st1)"
    by (cases "get_or_create_id st source_url")
  obtain t st2 where 2: "get_or_create_id st1 target_url = (t, st2)"
    by (cases "get_or_create_id st1 target_url")
  note i1 = get_or_create_id_inv [OF assms 1]
  note i2 = get_or_create_id_inv [OF i1(1) 2]
  note l1 = get_or_create_id_links [OF 1]
  note l2 = get_or_create_id_links [OF 2]
  have s: "s < next_id st2" and t: "t < next_id st2"
    using i1(2) i2(2,3) by simp_all
  have inv2: "graph_inv st2" by (rule i2(1))
  show ?thesis
    unfolding graph_inv_def add_link_links [OF 1 2]
    using inv2 s t unfolding graph_inv_def l1 l2
    by (auto simp: l1 l2)
qed

lemma graph_inv_new: "graph_inv new_pagerank"
  by (simp add: graph_inv_def new_pagerank_def out_links_def in_links_def dict_get_def)

lemma graph_inv_fold:
  "graph_inv st \<Longrightarrow> graph_inv (fold (\<lambda>(source_url, target_url) st. add_link st source_url target_url) links st)"
  by (induction links arbitrary: st) (auto simp: graph_inv_add_link)

lemma graph_inv_after: "graph_inv (pagerank_after links)"
  unfolding pagerank_after_def by (rule graph_inv_fold) (rule graph_inv_new)

lemma add_link_self_loop:
  "\<exists>i. map_of (url_to_id (add_link st url url)) url = Some i
     \<and> i \<in> set (out_links (add_link st url url) i)
     \<and> i \<in> set (in_links (add_link st url url) i)"
proof -
  obtain s st1 where 1: "get_or_create_id st url = (s, st1)"
    by (cases "get_or_create_id st url")
  then have known: "map_of (url_to_id st1) url = Some s"
    by (auto simp: get_or_create_id_def Let_def dict_get_def update_conv' split: if_splits option.splits)
  then have 2: "get_or_create_id st1 url = (s, st1)"
    by (simp add: get_or_create_id_def dict_get_def)
  show ?thesis
    using known by (simp add: add_link_links [OF 1 2])
qed

text \<open>
  Claim C6, as stated, fails: \<open>add_link\<close> has no test for a link from a page
  to itself, so one such call on a fresh graph stores the self-loop \<open>(0, 0)\<close>.
\<close>

theorem add_link_self_loop_counterexample:
  "0 \<in> set (out_links (pagerank_after [(''http://a.test/'', ''http://a.test/'')]) 0)"
  by (simp add: pagerank_after_def new_pagerank_def add_link_def get_or_create_id_def
      out_links_def dict_get_def)

text \<open>
  Claim C6, amended.  After every sequence of \<open>add_link\<close> calls the out-edge
  \<open>(i, j)\<close> is stored exactly when the in-edge is stored in the reverse
  adjacency; a call whose source equals its target is not discarded: it
  stores the self-loop in both adjacencies.
\<close>

theorem add_link_edges_mirrored:
  "(let st = pagerank_after links in
      (\<forall>i j. j \<in> set (out_links st i) \<longleftrightarrow> i \<in> set (in_links st j)))
   \<and> (let st = add_link (pagerank_after links) url url in
      (\<exists>i. map_of (url_to_id st) url = Some i
         \<and> i \<in> set (out_links st i) \<and> i \<in> set (in_links st i)))"
  using graph_inv_after [of links] add_link_self_loop [of "pagerank_after links" url]
  by (simp add: Let_def graph_inv_def)

theorem add_link_edges_mirrored_witness:
  "(let st = pagerank_after [(''a'', ''b''), (''b'', ''a'')] in
      (\<forall>i j. j \<in> set (out_links st i) \<longleftrightarrow> i \<in> set (in_links st j))
      \<and> out_links st 0 = [1] \<and> in_links st 1 = [0])
   \<and> (let st = add_link (pagerank_after [(''a'', ''b''), (''b'', ''a'')]) ''a'' ''a'' in
        0 \<in> set (out_links st 0) \<and> 0 \<in> set (in_links st 0))"
proof -
  have "out_links (pagerank_after [(''a'', ''b''), (''b'', ''a'')]) 0 = [1]"
    "in_links (pagerank_after [(''a'', ''b''), (''b'', ''a'')]) 1 = [0]"
    "map_of (url_to_id (add_link (pagerank_after [(''a'', ''b''), (''b'', ''a'')]) ''a'' ''a'')) ''a'' = Some 0"
    by (simp_all add: pagerank_after_def new_pagerank_def add_link_def get_or_create_id_def
      out_links_def in_links_def dict_get_def)
  then show ?thesis
    using add_link_edges_mirrored [of "[(''a'', ''b''), (''b'', ''a'')]" "''a''"]
    by (simp add: Let_def)
qed

section \<open>The transition matrix and the power iteration\<close>

lemma is_matrix_nth: "is_matrix n m \<Longrightarrow> i < n \<Longrightarrow> length (m ! i) = n"
  by (simp add: is_matrix_def)

lemma is_matrix_zeros: "is_matrix n (replicate n (replicate n 0))"
  by (simp add: is_matrix_def)

lemma is_matrix_set_entry: "is_matrix n m \<Longrightarrow> is_matrix n (set_entry m i j v)"
proof (cases "i < length m")
  case True
  assume "is_matrix n m"
  then have "length (m ! i) = n" and rows: "\<forall>row \<in> set m. length row = n" and "length m = n"
    using True by (simp_all add: is_matrix_def)
  then have "\<forall>row \<in> insert ((m ! i)[j := v]) (set m). length row = n" by simp
  then have "\<forall>row \<in> set (m[i := (m ! i)[j := v]]). length row = n"
    using set_update_subset_insert [of m i "(m ! i)[j := v]"] by blast
  then show ?thesis using \<open>length m = n\<close> by (simp add: is_matrix_def set_entry_def)
next
  case False
  assume "is_matrix n m"
  then show ?thesis using False by (simp add: set_entry_def list_update_beyond)
qed

lemma is_matrix_set_column: "is_matrix n m \<Longrightarrow> is_matrix n (set_column m j v)"
  by (auto simp: is_matrix_def set_column_def)

lemma set_entry_nth:
  "is_matrix n m \<Longrightarrow> i < n \<Longrightarrow> j < n \<Longrightarrow> i' < n \<Longrightarrow> j' < n \<Longrightarrow>
   set_entry m i j v ! i' ! j' = (if i' = i \<and> j' = j then v else m ! i' ! j')"
  by (auto simp: set_entry_def is_matrix_def nth_list_update)

lemma set_column_nth:
  "is_matrix n m \<Longrightarrow> j < n \<Longrightarrow> i' < n \<Longrightarrow> j' < n \<Longrightarrow>
   set_column m j v ! i' ! j' = (if j' = j then v else m ! i' ! j')"
  by (auto simp: set_column_def is_matrix_def nth_list_update)

lemma is_matrix_fill_links: "is_matrix n m \<Longrightarrow> is_matrix n (fill_links n s p targets m)"
  by (induction targets arbitrary: m) (auto simp: is_matrix_set_entry)

lemma fill_links_nth:
  "is_matrix n m \<Longrightarrow> s < n \<Longrightarrow> i < n \<Longrightarrow> j < n \<Longrightarrow>
   fill_links n s p targets m ! i ! j = (if j = s \<and> i \<in> set targets then p else m ! i ! j)"
proof (induction targets arbitrary: m)
  case Nil
  then show ?case by simp
next
  case (Cons t rest)
  show ?case
  proof (cases "t < n")
    case True
    have "fill_links n s p (t # rest) m ! i ! j = fill_links n s p rest (set_entry m t s p) ! i ! j"
      using True by simp
    also have "\<dots> = (if j = s \<and> i \<in> set rest then p else set_entry m t s p ! i ! j)"
      using Cons.prems by (intro Cons.IH) (simp_all add: is_matrix_set_entry)
    also have "\<dots> = (if j = s \<and> i \<in> set (t # rest) then p else m ! i ! j)"
      using Cons.prems True by (auto simp: set_entry_nth)
    finally show ?thesis .
  next
    case False
    then have "i \<noteq> t" using Cons.prems by auto
    then show ?thesis using False Cons by simp
  qed
qed

lemma is_matrix_build_column: "is_matrix n m \<Longrightarrow> is_matrix n (build_column st n s m)"
  by (simp add: build_column_def Let_def is_matrix_fill_links is_matrix_set_column)

lemma build_column_nth:
  "is_matrix n m \<Longrightarrow> s < n \<Longrightarrow> i < n \<Longrightarrow> j < n \<Longrightarrow>
   build_column st n s m ! i ! j =
     (if j = s then column_value st n (m ! i ! j) i j else m ! i ! j)"
  by (simp add: build_column_def Let_def fill_links_nth set_column_nth column_value_def)

lemma is_matrix_fold_build_column:
  "is_matrix n m \<Longrightarrow> is_matrix n (fold (build_column st n) srcs m)"
  by (induction srcs arbitrary: m) (auto simp: is_matrix_build_column)

lemma fold_build_column_nth:
  "is_matrix n m \<Longrightarrow> distinct srcs \<Longrightarrow> \<forall>s \<in> set srcs. s < n \<Longrightarrow> i < n \<Longrightarrow> j < n \<Longrightarrow>
   fold (build_column st n) srcs m ! i ! j =
     (if j \<in> set srcs then column_value st n (m ! i ! j) i j else m ! i ! j)"
proof (induction srcs arbitrary: m)
  case Nil
  then show ?case by simp
next
  case (Cons s rest)
  let ?m' = "build_column st n s m"
  have m': "is_matrix n ?m'" using Cons.prems(1) by (rule is_matrix_build_column)
  have s: "s < n" "s \<notin> set rest" using Cons.prems by auto
  have "fold (build_column st n) (s # rest) m ! i ! j = fold (build_column st n) rest ?m' ! i ! j"
    by simp
  also have "\<dots> = (if j \<in> set rest then column_value st n (?m' ! i ! j) i j else ?m' ! i ! j)"
    using Cons.prems m' by (intro Cons.IH) simp_all
  also have "\<dots> = (if j \<in> set (s # rest) then column_value st n (m ! i ! j) i j else m ! i ! j)"
    using s Cons.prems by (auto simp: build_column_nth)
  finally show ?case .
qed

lemma is_matrix_build: "is_matrix n (build_transition_matrix st n)"
  unfolding build_transition_matrix_def
  by (rule is_matrix_fold_build_column) (rule is_matrix_zeros)

lemma build_transition_matrix_nth:
  assumes "i < n" "j < n"
  shows "build_transition_matrix st n ! i ! j = column_value st n 0 i j"
proof -
  have "build_transition_matrix st n ! i ! j =
      (if j \<in> set [0..<n] then column_value st n (replicate n (replicate n 0) ! i ! j) i j
       else replicate n (replicate n 0) ! i ! j)"
    unfolding build_transition_matrix_def
    using assms by (intro fold_build_column_nth) (simp_all add: is_matrix_zeros)
  then show ?thesis using assms by simp
qed

lemma column_sum:
  assumes "graph_inv st" "n = next_id st" "j < n"
  shows "(\<Sum>i = 0..<n. build_transition_matrix st n ! i ! j) = 1"
proof -
  have "(\<Sum>i = 0..<n. build_transition_matrix st n ! i ! j) = (\<Sum>i = 0..<n. column_value st n 0 i j)"
    using assms(3) by (intro sum.cong) (simp_all add: build_transition_matrix_nth)
  also have "\<dots> = 1"
  proof (cases "out_links st j = []")
    case True
    then show ?thesis using assms(3) by (simp add: column_value_def)
  next
    case False
    let ?out = "out_links st j"
    have d: "distinct ?out" and sub: "set ?out \<subseteq> {0..<n}"
      using assms(1,2) by (auto simp: graph_inv_def)
    have "(\<Sum>i = 0..<n. column_value st n 0 i j) =
        (\<Sum>i = 0..<n. if i \<in> set ?out then 1 / of_nat (length ?out) else 0)"
      using False by (simp add: column_value_def)
    also have "\<dots> = (\<Sum>i \<in> {0..<n} \<inter> set ?out. 1 / of_nat (length ?out))"
      by (rule sum.inter_restrict [symmetric]) simp
    also have "{0..<n} \<inter> set ?out = set ?out" using sub by auto
    also have "(\<Sum>i \<in> set ?out. 1 / of_nat (length ?out)) =
        (of_nat (card (set ?out)) / of_nat (length ?out) :: rat)"
      by simp
    also have "\<dots> = 1" using False d by (simp add: distinct_card)
    finally show ?thesis .
  qed
  finally show ?thesis .
qed

lemma sum_list_map2_mult:
  "length row = length v \<Longrightarrow> sum_list (map2 (*) row v) = (\<Sum>j = 0..<length v. row ! j * v ! j)"
  for row :: "rat list"
proof -
  assume l: "length row = length v"
  have "sum_list (map2 (*) row v) = (\<Sum>j = 0..<length (map2 (*) row v). map2 (*) row v ! j)"
    by (rule sum_list_sum_nth)
  also have "\<dots> = (\<Sum>j = 0..<length v. row ! j * v ! j)"
    using l by (intro sum.cong) simp_all
  finally show ?thesis .
qed

lemma sum_list_dot:
  assumes "is_matrix n m" "length v = n"
  shows "sum_list (dot m v) = (\<Sum>j = 0..<n. (\<Sum>i = 0..<n. m ! i ! j) * v ! j)"
proof -
  have "sum_list (dot m v) = (\<Sum>i = 0..<length (dot m v). dot m v ! i)"
    by (rule sum_list_sum_nth)
  also have "\<dots> = (\<Sum>i = 0..<n. (\<Sum>j = 0..<n. m ! i ! j * v ! j))"
    using assms by (intro sum.cong) (auto simp: dot_def is_matrix_def sum_list_map2_mult)
  also have "\<dots> = (\<Sum>j = 0..<n. (\<Sum>i = 0..<n. m ! i ! j * v ! j))"
    by (rule sum.swap)
  also have "\<dots> = (\<Sum>j = 0..<n. (\<Sum>i = 0..<n. m ! i ! j) * v ! j)"
    by (simp add: sum_distrib_right)
  finally show ?thesis .
qed

lemma sum_list_map_affine:
  "sum_list (map (\<lambda>x. a * x + b) xs) = a * sum_list xs + of_nat (length xs) * b"
  for a b :: rat
  by (induction xs) (simp_all add: algebra_simps)

lemma pagerank_iteration_mass:
  assumes inv: "graph_inv st" and n: "n = next_id st"
    and len: "length s = n" and mass: "sum_list s = 1"
  shows "\<exists>s'. pagerank_iteration st s (build_transition_matrix st n) n = Inr s'
           \<and> length s' = n \<and> sum_list s' = 1"
proof -
  let ?M = "build_transition_matrix st n"
  have M: "is_matrix n ?M" by (rule is_matrix_build)
  have pos: "n \<noteq> 0" using len mass by auto
  have "sum_list (dot ?M s) = (\<Sum>j = 0..<n. (\<Sum>i = 0..<n. ?M ! i ! j) * s ! j)"
    using M len by (rule sum_list_dot)
  also have "\<dots> = (\<Sum>j = 0..<n. s ! j)"
    using inv n by (intro sum.cong) (simp_all add: column_sum)
  also have "\<dots> = sum_list s"
    using len by (simp add: sum_list_sum_nth)
  finally have dot_mass: "sum_list (dot ?M s) = 1" using mass by simp
  have dot_len: "length (dot ?M s) = n" using M by (simp add: dot_def is_matrix_def)
  let ?s' = "map (\<lambda>x. x + (1 - damping_factor st) / of_nat n)
               (map (\<lambda>x. damping_factor st * x) (dot ?M s))"
  have run: "pagerank_iteration st s ?M n = Inr ?s'"
    using M len pos by (simp add: pagerank_iteration_def py_truediv_def is_matrix_def Let_def)
  have "sum_list ?s' = damping_factor st * sum_list (dot ?M s)
      + of_nat (length (dot ?M s)) * ((1 - damping_factor st) / of_nat n)"
    by (simp add: comp_def sum_list_map_affine)
  also have "\<dots> = 1" using pos by (simp add: dot_mass dot_len)
  finally have "sum_list ?s' = 1" .
  then show ?thesis using run dot_len by simp
qed

lemma power_iteration_mass:
  assumes inv: "graph_inv st" and n: "n = next_id st"
  shows "length s = n \<Longrightarrow> sum_list s = 1 \<Longrightarrow>
    \<exists>s'. power_iteration st (build_transition_matrix st n) n k s = Inr s'
       \<and> length s' = n \<and> sum_list s' = 1"
proof (induction k arbitrary: s)
  case 0
  then show ?case by simp
next
  case (Suc k)
  obtain new where new: "pagerank_iteration st s (build_transition_matrix st n) n = Inr new"
    "length new = n" "sum_list new = 1"
    using pagerank_iteration_mass [OF inv n Suc.prems] by blast
  show ?case
    using Suc.IH [OF new(2,3)] Suc.prems by (simp add: new(1))
qed

lemma uniform_mass: "n \<noteq> 0 \<Longrightarrow> sum_list (replicate n (1 / of_nat n :: rat)) = 1"
  by (simp add: sum_list_replicate)

lemma graph_inv_config:
  "graph_inv (st\<lparr>damping_factor := d, max_iterations := k, tolerance := tol\<rparr>) = graph_inv st"
  by (simp add: graph_inv_def out_links_def in_links_def)

lemma pagerank_after_snoc:
  "pagerank_after (links @ [(source_url, target_url)]) =
     add_link (pagerank_after links) source_url target_url"
  by (simp add: pagerank_after_def)

lemma add_link_graph_nonempty: "graph (add_link st source_url target_url) \<noteq> []"
  by (simp add: add_link_def Let_def split: prod.splits)

lemma add_link_next_id_pos:
  assumes "graph_inv st"
  shows "next_id (add_link st source_url target_url) \<noteq> 0"
proof -
  obtain s st1 where 1: "get_or_create_id st source_url = (s, st1)"
    by (cases "get_or_create_id st source_url")
  obtain t st2 where 2: "get_or_create_id st1 target_url = (t, st2)"
    by (cases "get_or_create_id st1 target_url")
  have "t \<in> set (out_links (add_link st source_url target_url) s)"
    by (simp add: add_link_links [OF 1 2])
  moreover have "graph_inv (add_link st source_url target_url)"
    using assms by (rule graph_inv_add_link)
  ultimately have "s < next_id (add_link st source_url target_url)"
    unfolding graph_inv_def by blast
  then show ?thesis by simp
qed

lemma pagerank_after_nonempty:
  assumes "links \<noteq> []"
  shows "graph (pagerank_after links) \<noteq> []" and "next_id (pagerank_after links) \<noteq> 0"
proof -
  obtain rest l where "links = rest @ [l]"
    using assms by (cases links rule: rev_cases) auto
  then have eq: "pagerank_after links = add_link (pagerank_after rest) (fst l) (snd l)"
    using pagerank_after_snoc [of rest "fst l" "snd l"] by simp
  show "graph (pagerank_after links) \<noteq> []"
    unfolding eq by (rule add_link_graph_nonempty)
  show "next_id (pagerank_after links) \<noteq> 0"
    unfolding eq by (rule add_link_next_id_pos) (rule graph_inv_after)
qed

text \<open>
  Claim C9.  On the graph built by any sequence of \<open>add_link\<close> calls, with any
  damping factor, iteration bound and tolerance, one power iteration with the
  matrix of \<open>_build_transition_matrix\<close> takes a score vector of sum 1 to a
  score vector of sum 1, and the loop of \<open>calculate_pagerank\<close>, started from
  the uniform vector, ends with a vector of sum 1.
\<close>

theorem pagerank_mass_preserved:
  assumes st: "st = (pagerank_after links)\<lparr>damping_factor := d, max_iterations := k, tolerance := tol\<rparr>"
    and n: "n = length (url_to_id st)"
  shows "(\<forall>s. length s = n \<and> sum_list s = 1 \<longrightarrow>
            (\<exists>s'. pagerank_iteration st s (build_transition_matrix st n) n = Inr s'
                \<and> length s' = n \<and> sum_list s' = 1))
       \<and> (links \<noteq> [] \<longrightarrow> (\<exists>s'. calculate_pagerank st = Some (Inr s') \<and> sum_list s' = 1))"
proof -
  have inv: "graph_inv st"
    unfolding st graph_inv_config by (rule graph_inv_after)
  then have n': "n = next_id st" using n by (simp add: graph_inv_def)
  have step: "\<forall>s. length s = n \<and> sum_list s = 1 \<longrightarrow>
            (\<exists>s'. pagerank_iteration st s (build_transition_matrix st n) n = Inr s'
                \<and> length s' = n \<and> sum_list s' = 1)"
    using pagerank_iteration_mass [OF inv n'] by blast
  have run: "\<exists>s'. calculate_pagerank st = Some (Inr s') \<and> sum_list s' = 1" if "links \<noteq> []"
  proof -
    have g: "graph st \<noteq> []" and pos: "n \<noteq> 0"
      using pagerank_after_nonempty [OF that] n' by (simp_all add: st)
    have "\<exists>s'. power_iteration st (build_transition_matrix st n) n k (replicate n (1 / of_nat n)) = Inr s'
       \<and> length s' = n \<and> sum_list s' = 1"
      using pos by (intro power_iteration_mass [OF inv n']) (simp_all add: uniform_mass)
    moreover have "max_iterations st = k" by (simp add: st)
    ultimately show ?thesis
      using g n by (auto simp: calculate_pagerank_def Let_def)
  qed
  show ?thesis using step run by blast
qed


theorem pagerank_mass_preserved_witness:
  "(let st = (pagerank_after [(''a'', ''b'')])\<lparr>damping_factor := 85 / 100, max_iterations := 2, tolerance := 0\<rparr>
    in length (url_to_id st) = 2
     \<and> sum_list [1 / 2, 1 / 2 :: rat] = 1
     \<and> pagerank_iteration st [1 / 2, 1 / 2] (build_transition_matrix st 2) 2 = Inr [23 / 80, 57 / 80]
     \<and> sum_list [23 / 80, 57 / 80 :: rat] = 1
     \<and> (\<exists>s'. calculate_pagerank st = Some (Inr s') \<and> sum_list s' = 1))"
proof -
  let ?st = "(pagerank_after [(''a'', ''b'')])\<lparr>damping_factor := 85 / 100, max_iterations := 2, tolerance := 0\<rparr>"
  have st: "?st = \<lparr>damping_factor = 85 / 100, max_iterations = 2, tolerance = 0,
      graph = [(0, [1])], reverse_graph = [(1, [0])], scores = [],
      url_to_id = [(''a'', 0), (''b'', 1)], id_to_url = [(0, ''a''), (1, ''b'')], next_id = 2\<rparr>"
    by (simp add: pagerank_after_def new_pagerank_def add_link_def get_or_create_id_def dict_get_def)
  have m: "build_transition_matrix ?st 2 = [[0, 1 / 2], [1, 1 / 2]]"
    unfolding st
    by (simp add: build_transition_matrix_def build_column_def out_links_def dict_get_def
        set_entry_def set_column_def upt_rec [of 0] upt_rec [of 1] numeral_2_eq_2)
  have it: "pagerank_iteration ?st [1 / 2, 1 / 2] (build_transition_matrix ?st 2) 2 = Inr [23 / 80, 57 / 80]"
    unfolding m unfolding st
    by (simp add: pagerank_iteration_def dot_def py_truediv_def)
  have len: "length (url_to_id ?st) = 2"
    unfolding st by simp
  have "\<exists>s'. calculate_pagerank ?st = Some (Inr s') \<and> sum_list s' = 1"
    using pagerank_mass_preserved
      [where links = "[(''a'', ''b'')]" and d = "85 / 100" and k = 2 and tol = 0, OF refl refl]
    by simp
  then show ?thesis
    using it len by (simp add: Let_def)
qed

section \<open>Properties of the TF-IDF ranking\<close>

lemma idf_defined_new: "idf_defined new_index"
  by (simp add: idf_defined_def new_index_def get_document_frequency_def map_get_def)

lemma idf_defined_add_document:
  "idf_defined st \<Longrightarrow> idf_defined (add_document st doc_id tokens)"
  by (cases "map_of (doc_lengths st) doc_id")
     (simp_all add: add_document_def idf_defined_def Let_def split: prod.splits)

lemma idf_defined_fold:
  "idf_defined st \<Longrightarrow> idf_defined (fold (\<lambda>(doc_id, tokens) st. add_document st doc_id tokens) docs st)"
  by (induction docs arbitrary: st) (auto simp: idf_defined_add_document)

lemma idf_defined_after: "idf_defined (index_after docs)"
  unfolding index_after_def by (rule idf_defined_fold) (rule idf_defined_new)

lemma calculate_idf_total:
  assumes "idf_defined st"
  shows "\<exists>v. calculate_idf st t = Inr v"
proof (cases "get_document_frequency st t = 0")
  case True
  then show ?thesis by (simp add: calculate_idf_def)
next
  case False
  then have "total_docs st > 0" using assms unfolding idf_defined_def by blast
  then have "(of_nat (total_docs st) / of_nat (get_document_frequency st t) :: real) > 0"
    using False by simp
  then show ?thesis using False by (simp add: calculate_idf_def py_log_def)
qed

lemma calculate_tfidf_total:
  assumes "idf_defined st"
  shows "\<exists>v. calculate_tfidf st t d = Inr v"
  using calculate_idf_total [OF assms, of t]
  by (auto simp: calculate_tfidf_def Let_def)

lemma sum_tfidf_total:
  assumes "idf_defined st"
  shows "\<exists>v. sum_tfidf st d terms acc = Inr v"
proof (induction terms arbitrary: acc)
  case Nil
  then show ?case by simp
next
  case (Cons t rest)
  obtain v where "calculate_tfidf st t d = Inr v"
    using calculate_tfidf_total [OF assms] by blast
  then show ?case using Cons.IH by simp
qed

lemma score_document_total:
  assumes "idf_defined st"
  shows "\<exists>v. score_document st q d = Inr v"
proof -
  obtain v where "sum_tfidf st d q 0 = Inr v"
    using sum_tfidf_total [OF assms] by blast
  then show ?thesis by (simp add: score_document_def)
qed

lemma collect_scores_eq:
  assumes "\<forall>d. score_document st q d = Inr (score d)"
  shows "collect_scores st q cands acc = Inr (acc @ [(d, score d). d \<leftarrow> cands, 0 < score d])"
  using assms by (induction cands arbitrary: acc) simp_all

lemma sorted_by_score_reverse_descending:
  "sorted_wrt (\<lambda>a b. snd a \<ge> snd b) (sorted_by_score_reverse xs)"
proof -
  have "sorted (map (\<lambda>x. - snd x) (sort_key (\<lambda>x. - snd x) xs))"
    by (rule sorted_sort_key)
  then show ?thesis
    by (simp add: sorted_by_score_reverse_def sorted_map)
qed

lemma sorted_by_score_reverse_stable:
  "filter (\<lambda>x. snd x = k) (sorted_by_score_reverse xs) = filter (\<lambda>x. snd x = k) xs"
proof -
  have "filter (\<lambda>x. - snd x = - k) (sort_key (\<lambda>x. - snd x) xs) = filter (\<lambda>x. - snd x = - k) xs"
    by (rule sort_key_stable)
  then show ?thesis by (simp add: sorted_by_score_reverse_def)
qed

text \<open>
  Claim C4, amended.  On every index built by \<open>add_document\<close>, for every query
  and candidate list, \<open>score_documents\<close> returns normally; its pairs are in
  descending score order; they are exactly the candidates of strictly
  positive score with their scores; and pairs of equal score keep the order
  they have in the candidate list (the document id is not compared).
\<close>

theorem score_documents_ranking:
  "\<exists>score ranked.
      (\<forall>d. score_document (index_after docs) q d = Inr (score d))
    \<and> score_documents (index_after docs) q cands = Inr ranked
    \<and> sorted_wrt (\<lambda>a b. snd a \<ge> snd b) ranked
    \<and> set ranked = {(d, score d) | d. d \<in> set cands \<and> 0 < score d}
    \<and> (\<forall>k. filter (\<lambda>x. snd x = k) ranked =
             filter (\<lambda>x. snd x = k) [(d, score d). d \<leftarrow> cands, 0 < score d])"
proof -
  let ?st = "index_after docs"
  have "\<forall>d. \<exists>v. score_document ?st q d = Inr v"
    using score_document_total [OF idf_defined_after] by blast
  then obtain score where score: "\<forall>d. score_document ?st q d = Inr (score d)"
    by metis
  let ?scored = "[(d, score d). d \<leftarrow> cands, 0 < score d]"
  have run: "score_documents ?st q cands = Inr (sorted_by_score_reverse ?scored)"
    by (simp add: score_documents_def collect_scores_eq [OF score])
  have "set (sorted_by_score_reverse ?scored) = {(d, score d) | d. d \<in> set cands \<and> 0 < score d}"
    by (auto simp: sorted_by_score_reverse_def)
  then show ?thesis
    using score run sorted_by_score_reverse_descending [of ?scored]
      sorted_by_score_reverse_stable [of _ ?scored]
    by blast
qed

text \<open>
  Claim C4, as stated, fails on the tie-break: two documents of equal score
  come out in candidate order, here \<open>B\<close> before \<open>A\<close>.
\<close>

theorem score_documents_tie_counterexample:
  "score_documents (index_after [(''B'', [''cat'']), (''A'', [''cat'']), (''C'', [''dog''])])
     [''cat''] [''B'', ''A'', ''C''] = Inr [(''B'', ln (3 / 2)), (''A'', ln (3 / 2))]
   \<and> (''A'' :: string) < ''B''"
  by (simp add: index_after_def new_index_def add_document_def dict_get_def
      score_documents_def score_document_def calculate_tfidf_def calculate_idf_def calculate_tf_def
      get_term_frequency_def get_document_frequency_def get_document_length_def map_get_def py_log_def
      sorted_by_score_reverse_def)

theorem score_documents_ranking_witness:
  "\<exists>ranked. score_documents (index_after [(''A'', [''cat'', ''sat'', ''mat'']), (''B'', [''cat'', ''cat'', ''hat''])])
       [''mat''] [''A'', ''B''] = Inr ranked
     \<and> sorted_wrt (\<lambda>a b. snd a \<ge> snd b) ranked
     \<and> ranked = [(''A'', ln 2)]"
proof -
  have "score_documents (index_after [(''A'', [''cat'', ''sat'', ''mat'']), (''B'', [''cat'', ''cat'', ''hat''])])
       [''mat''] [''A'', ''B''] = Inr [(''A'', ln 2)]"
    by (simp add: index_after_def new_index_def add_document_def dict_get_def
      score_documents_def score_document_def calculate_tfidf_def calculate_idf_def calculate_tf_def
      get_term_frequency_def get_document_frequency_def get_document_length_def map_get_def py_log_def
      sorted_by_score_reverse_def)
  then show ?thesis
    using score_documents_ranking
      [of "[(''A'', [''cat'', ''sat'', ''mat'']), (''B'', [''cat'', ''cat'', ''hat''])]" "[''mat'']" "[''A'', ''B'']"]
    by auto
qed

section \<open>Properties of URL canonicalisation\<close>











lemma split_on_nonempty: "split_on c s \<noteq> []"
  by (induction s) (auto split: list.splits)




















































text \<open>
  Outside that shape the slash of the root path can come back: when
  parameters follow it, \<open>urlunparse\<close> writes a slash between the host and
  the \<open>;\<close>, and the URL is its own canonical form.
\<close>

lemma normalize_url_params_keep_root:
  "normalize_url (\<lambda>host. True) ''http://ex.com/;p'' = Inr ''http://ex.com/;p''"
  by code_simp


section \<open>Properties of the URL frontier\<close>

lemma loop_empty:
  "priority_queue st = [] \<Longrightarrow> get_next_url_loop check_host now st = Some (Inr None, st)"
  by (subst get_next_url_loop.simps) simp

lemma loop_raise:
  "priority_queue st = item # heap \<Longrightarrow> urlparse check_host (snd (snd item)) = Inl e \<Longrightarrow>
   get_next_url_loop check_host now st = Some (Inl e, st\<lparr>priority_queue := heap\<rparr>)"
  by (subst get_next_url_loop.simps) simp

lemma loop_defer:
  "priority_queue st = item # heap \<Longrightarrow> urlparse check_host (snd (snd item)) = Inr parsed \<Longrightarrow>
   now - map_get (domain_last_access st) (netloc parsed) 0 < CRAWL_DELAY \<Longrightarrow>
   get_next_url_loop check_host now st =
     get_next_url_loop check_host now
       (st\<lparr>priority_queue := heappush heap (fst item, now + CRAWL_DELAY, snd (snd item))\<rparr>)"
  by (subst get_next_url_loop.simps) simp

lemma loop_accept:
  "priority_queue st = item # heap \<Longrightarrow> urlparse check_host (snd (snd item)) = Inr parsed \<Longrightarrow>
   \<not> now - map_get (domain_last_access st) (netloc parsed) 0 < CRAWL_DELAY \<Longrightarrow>
   get_next_url_loop check_host now st =
     Some (Inr (Some (snd (snd item))),
       st\<lparr>priority_queue := heap,
          domain_last_access := (domain_last_access st)(netloc parsed \<mapsto> now),
          crawled_urls := insert (snd (snd item)) (crawled_urls st),
          frontier_urls := frontier_urls st - {snd (snd item)}\<rparr>)"
  by (subst get_next_url_loop.simps) simp

lemma all_deferred_step:
  assumes "all_deferred check_host now st" and "priority_queue st = item # heap"
  shows "all_deferred check_host now
    (st\<lparr>priority_queue := heappush heap (fst item, now + CRAWL_DELAY, snd (snd item))\<rparr>)"
  using assms by (auto simp: all_deferred_def heappush_def set_insort_key)

lemma loop_returns_not_deferred:
  assumes "get_next_url_loop check_host now st = Some y"
  shows "\<not> all_deferred check_host now st"
  apply (rule get_next_url_loop.raw_induct
      [where P = "\<lambda>check_host now st y. \<not> all_deferred check_host now st"])
   defer
   apply (rule assms)
  subgoal premises prems for loop ch n s r
  proof
    assume d: "all_deferred ch n s"
    then obtain item heap where q: "priority_queue s = item # heap"
      by (cases "priority_queue s") (auto simp: all_deferred_def)
    from d q obtain parsed where p: "urlparse ch (snd (snd item)) = Inr parsed"
      and wait: "n - map_get (domain_last_access s) (netloc parsed) 0 < CRAWL_DELAY"
      by (auto simp: all_deferred_def)
    let ?s' = "s\<lparr>priority_queue := heappush heap (fst item, n + CRAWL_DELAY, snd (snd item))\<rparr>"
    have "loop ch n ?s' = Some r"
      using prems(2) q p wait by simp
    then have "\<not> all_deferred ch n ?s'" by (rule prems(1))
    then show False using all_deferred_step [OF d q] by simp
  qed
  done

lemma get_next_url_never_returns:
  "all_deferred check_host now st \<Longrightarrow> get_next_url check_host st now = None"
  unfolding get_next_url_def using loop_returns_not_deferred [of check_host now st]
  by (cases "get_next_url_loop check_host now st") auto

lemma loop_return_facts:
  assumes "get_next_url_loop check_host now st = Some y"
  shows "(fst y = Inr None \<longrightarrow> priority_queue (snd y) = [])
   \<and> (\<forall>url. fst y = Inr (Some url) \<longrightarrow> url \<in> crawled_urls (snd y))"
  apply (rule get_next_url_loop.raw_induct
      [where P = "\<lambda>check_host now st y. (fst y = Inr None \<longrightarrow> priority_queue (snd y) = [])
         \<and> (\<forall>url. fst y = Inr (Some url) \<longrightarrow> url \<in> crawled_urls (snd y))"])
   defer
   apply (rule assms)
  subgoal premises prems for loop ch n s r
    using prems(2) prems(1)
    by (auto split: list.splits sum.splits if_splits)
  done

lemma urlparse_x_test_a:
  "urlparse (\<lambda>host. True) ''http://x.test/a'' =
     Inr \<lparr>scheme = ''http'', netloc = ''x.test'', path = ''/a'', params = [], query = [], fragment = []\<rparr>"
  by code_simp

lemma urlparse_x_test_b:
  "urlparse (\<lambda>host. True) ''http://x.test/b'' =
     Inr \<lparr>scheme = ''http'', netloc = ''x.test'', path = ''/b'', params = [], query = [], fragment = []\<rparr>"
  by code_simp

text \<open>
  Claim C1 (termination of \<open>get_next_url\<close>) does not hold of the code.  In
  the specification's politeness scenario two URLs of one host are added and
  the first \<open>get_next_url\<close> call, at time 1000, returns one of them.  A second
  call half a second later pops the other URL, finds its host accessed less
  than \<open>CRAWL_DELAY\<close> ago, pushes it back and pops it again, for ever: the run
  with that call has no result.
\<close>

theorem get_next_url_spins:
  "map_option fst (run_calls (\<lambda>host. True) new_frontier
      [AddUrl ''http://x.test/a'' 1 1000, AddUrl ''http://x.test/b'' 1 1000, GetNextUrl 1000]) =
     Some [Added True, Added True, Returned (Some ''http://x.test/a'')]
   \<and> run_calls (\<lambda>host. True) new_frontier
      [AddUrl ''http://x.test/a'' 1 1000, AddUrl ''http://x.test/b'' 1 1000, GetNextUrl 1000,
       GetNextUrl (2001 / 2)] = None"
proof -
  let ?a = "''http://x.test/a''" and ?b = "''http://x.test/b''"
  let ?dq = "[(''x.test'', [?a, ?b])]"
  let ?S2 = "\<lparr>priority_queue = [(1, 1000, ?a), (1, 1000, ?b)], domain_queues = ?dq,
     domain_last_access = Map.empty, crawled_urls = {}, frontier_urls = {?b, ?a}\<rparr>"
  let ?S3 = "\<lparr>priority_queue = [(1, 1000, ?b)], domain_queues = ?dq,
     domain_last_access = [''x.test'' \<mapsto> 1000], crawled_urls = {?a}, frontier_urls = {?b, ?a} - {?a}\<rparr>"
  have adds: "run_calls (\<lambda>host. True) new_frontier (AddUrl ?a 1 1000 # AddUrl ?b 1 1000 # calls) =
      (case run_calls (\<lambda>host. True) ?S2 calls of None \<Rightarrow> None
       | Some (outs, st'') \<Rightarrow> Some (Added True # Added True # outs, st''))" for calls
    by (simp add: add_url_def new_frontier_def urlparse_x_test_a urlparse_x_test_b heappush_def
        dict_get_def split: option.splits)
  have next1: "get_next_url (\<lambda>host. True) ?S2 1000 = Some (Inr (Some ?a), ?S3)"
    unfolding get_next_url_def
    by (subst get_next_url_loop.simps) (simp add: urlparse_x_test_a CRAWL_DELAY_def map_get_def)
  have "all_deferred (\<lambda>host. True) (2001 / 2) ?S3"
    by (simp add: all_deferred_def urlparse_x_test_b CRAWL_DELAY_def map_get_def)
  then have next2: "get_next_url (\<lambda>host. True) ?S3 (2001 / 2) = None"
    by (rule get_next_url_never_returns)
  show ?thesis
    unfolding adds by (simp add: next1 next2)
qed

text \<open>
  Claim C5 (a returned URL is never returned again) does not hold of the
  code.  A URL added twice before it is crawled sits in the queue twice;
  the first \<open>get_next_url\<close> returns it and puts it into the crawled set, and
  a later call, once the delay has passed, returns it again.
\<close>

theorem get_next_url_returns_url_twice:
  "map_option fst (run_calls (\<lambda>host. True) new_frontier
      [AddUrl ''http://x.test/a'' 1 1000, AddUrl ''http://x.test/a'' 1 1000, GetNextUrl 1000]) =
     Some [Added True, Added True, Returned (Some ''http://x.test/a'')]
   \<and> map_option (\<lambda>r. ''http://x.test/a'' \<in> crawled_urls (snd r)) (run_calls (\<lambda>host. True) new_frontier
      [AddUrl ''http://x.test/a'' 1 1000, AddUrl ''http://x.test/a'' 1 1000, GetNextUrl 1000]) =
     Some True
   \<and> map_option fst (run_calls (\<lambda>host. True) new_frontier
      [AddUrl ''http://x.test/a'' 1 1000, AddUrl ''http://x.test/a'' 1 1000, GetNextUrl 1000,
       GetNextUrl 1002]) =
     Some [Added True, Added True, Returned (Some ''http://x.test/a''), Returned (Some ''http://x.test/a'')]"
proof -
  let ?a = "''http://x.test/a''"
  let ?dq = "[(''x.test'', [?a, ?a])]"
  let ?S2 = "\<lparr>priority_queue = [(1, 1000, ?a), (1, 1000, ?a)], domain_queues = ?dq,
     domain_last_access = Map.empty, crawled_urls = {}, frontier_urls = {?a}\<rparr>"
  let ?S3 = "\<lparr>priority_queue = [(1, 1000, ?a)], domain_queues = ?dq,
     domain_last_access = [''x.test'' \<mapsto> 1000], crawled_urls = {?a}, frontier_urls = {}\<rparr>"
  let ?S4 = "\<lparr>priority_queue = [], domain_queues = ?dq,
     domain_last_access = [''x.test'' \<mapsto> 1002], crawled_urls = {?a}, frontier_urls = {}\<rparr>"
  have adds: "run_calls (\<lambda>host. True) new_frontier (AddUrl ?a 1 1000 # AddUrl ?a 1 1000 # calls) =
      (case run_calls (\<lambda>host. True) ?S2 calls of None \<Rightarrow> None
       | Some (outs, st'') \<Rightarrow> Some (Added True # Added True # outs, st''))" for calls
    by (simp add: add_url_def new_frontier_def urlparse_x_test_a heappush_def
        dict_get_def split: option.splits)
  have next1: "get_next_url (\<lambda>host. True) ?S2 1000 = Some (Inr (Some ?a), ?S3)"
    unfolding get_next_url_def
    by (subst get_next_url_loop.simps) (simp add: urlparse_x_test_a CRAWL_DELAY_def map_get_def)
  have next2: "get_next_url (\<lambda>host. True) ?S3 1002 = Some (Inr (Some ?a), ?S4)"
    unfolding get_next_url_def
    by (subst get_next_url_loop.simps) (simp add: urlparse_x_test_a CRAWL_DELAY_def map_get_def)
  show ?thesis
    unfolding adds by (simp add: next1 next2)
qed

section \<open>Properties of the query parser\<close>

lemma scenario_query_type: "detect_query_type scenario_query = ''phrase''"
  by code_simp

lemma scenario_query_intent: "detect_intent scenario_query = ''informational''"
  by code_simp

lemma scenario_query_filters: "extract_filters scenario_query = [(''site'', ''bestbuy.com'')]"
  by code_simp

text \<open>
  Claim C2, as stated, fails: the scenario query is not classified as a
  question.
\<close>

theorem parse_query_scenario_counterexample:
  "query_type (parse_query (\<lambda>text. []) scenario_query) \<noteq> ''question''"
  by (simp add: parse_query_def Let_def split_beta scenario_query_type)

text \<open>
  Claim C2, amended.  Whatever the text processor, \<open>parse_query\<close> gives the
  scenario query the type \<open>phrase\<close>: the tests run in the order operators,
  quotes, filter prefixes, questions, the query has no operator and has a
  quote, so the quote decides before the question test is reached.  The
  intent is \<open>informational\<close> and the filters are \<open>{site: bestbuy.com}\<close>.
\<close>

theorem parse_query_scenario:
  "query_type (parse_query process_text scenario_query) = ''phrase''
   \<and> intent (parse_query process_text scenario_query) = ''informational''
   \<and> filters (parse_query process_text scenario_query) = [(''site'', ''bestbuy.com'')]"
  by (simp only: parse_query_def Let_def split_beta parsed_query.simps
      scenario_query_type scenario_query_intent scenario_query_filters)

theorem parse_query_scenario_witness:
  "query_type (parse_query (\<lambda>text. [text]) scenario_query) = ''phrase''
   \<and> filters (parse_query (\<lambda>text. [text]) scenario_query) = [(''site'', ''bestbuy.com'')]
   \<and> phrases (parse_query (\<lambda>text. [text]) scenario_query) = [[''best laptop'']]
   \<and> operators (parse_query (\<lambda>text. [text]) scenario_query) = []"
proof -
  have "extract_phrases (\<lambda>text. [text]) scenario_query =
      ([[''best laptop'']], ''What is the   site:bestbuy.com under $1000'')"
    by code_simp
  moreover have "extract_operators ''What is the   site:bestbuy.com under $1000'' =
      ([], ''What is the   site:bestbuy.com under $1000'')"
    by code_simp
  ultimately show ?thesis
    using parse_query_scenario [of "\<lambda>text. [text]"]
    by (simp add: parse_query_def Let_def)
qed

end
